theory Spec2Isabelle
  imports
    Complex_Main
begin

section \<open>The in-memory retrieval engine of \<^verbatim>\<open>SimpleVectorStore\<close>\<close>

text \<open>
  The class \<^verbatim>\<open>SimpleVectorStore\<close> loads question/answer records, tokenizes the
  questions, and answers a query with two scorers whose results are fused. This theory
  embeds its methods as HOL functions and states the properties of the design document
  as theorems about them.
\<close>

subsection \<open>Strings\<close>

text \<open>
  A JavaScript string is a sequence of UTF-16 code units; \<^verbatim>\<open>s.length\<close> counts code
  units. A string is modelled as the list of its code units, each a natural number.
  \<open>js\<close> writes an ASCII literal as such a list.
\<close>

type_synonym jsstring = "nat list"

definition js :: "string \<Rightarrow> jsstring" where
  "js s = map of_char s"

text \<open>
  The regular expression class \<^verbatim>\<open>\s\<close> and \<^verbatim>\<open>String.prototype.trim\<close> use the same
  set: the ECMAScript white space and line terminator code points.
\<close>

definition isSpace :: "nat \<Rightarrow> bool" where
  "isSpace c \<longleftrightarrow>
     c \<in> set [9, 10, 11, 12, 13, 32, 160, 5760, 8232, 8233, 8239, 8287, 12288, 65279]
     \<or> (8192 \<le> c \<and> c \<le> 8202)"

text \<open>The class \<^verbatim>\<open>\w\<close> (no \<^verbatim>\<open>u\<close> or \<^verbatim>\<open>i\<close> flag) is \<^verbatim>\<open>[A-Za-z0-9_]\<close>.\<close>

definition isWord :: "nat \<Rightarrow> bool" where
  "isWord c \<longleftrightarrow>
     (65 \<le> c \<and> c \<le> 90) \<or> (97 \<le> c \<and> c \<le> 122) \<or> (48 \<le> c \<and> c \<le> 57) \<or> c = 95"

text \<open>
  \<^verbatim>\<open>String.prototype.toLowerCase\<close> maps each code point by the Unicode case table.
  The table is reproduced for Basic Latin and the Latin-1 Supplement, and for the two
  code points outside them whose lower-case form contains a Basic Latin letter:
  U+0130 (capital I with dot above, which becomes \<^verbatim>\<open>i\<close> followed by U+0307) and U+212A
  (the Kelvin sign, which becomes \<^verbatim>\<open>k\<close>). Every other code unit is left as it is; the
  case pairs of other scripts are not reproduced.
\<close>

definition lowerUnit :: "nat \<Rightarrow> jsstring" where
  "lowerUnit c =
     (if 65 \<le> c \<and> c \<le> 90 then [c + 32]
      else if 192 \<le> c \<and> c \<le> 222 \<and> c \<noteq> 215 then [c + 32]
      else if c = 304 then [105, 775]
      else if c = 8490 then [107]
      else [c])"

definition toLowerCase :: "jsstring \<Rightarrow> jsstring" where
  "toLowerCase s = concat (map lowerUnit s)"

definition trim :: "jsstring \<Rightarrow> jsstring" where
  "trim s = rev (dropWhile isSpace (rev (dropWhile isSpace s)))"

text \<open>\<^verbatim>\<open>s.startsWith(t)\<close> and \<^verbatim>\<open>s.includes(t)\<close>: \<open>t\<close> occurs in \<open>s\<close> as a contiguous run.\<close>

fun startsWith :: "jsstring \<Rightarrow> jsstring \<Rightarrow> bool" where
  "startsWith s [] = True"
| "startsWith [] (t # ts) = False"
| "startsWith (c # cs) (t # ts) = (c = t \<and> startsWith cs ts)"

fun includes_str :: "jsstring \<Rightarrow> jsstring \<Rightarrow> bool" where
  "includes_str [] t = (t = [])"
| "includes_str (c # cs) t = (startsWith (c # cs) t \<or> includes_str cs t)"

text \<open>
  \<^verbatim>\<open>s.split(/\s+/)\<close>: the pieces between maximal runs of white space. A run at the start
  or at the end of the string leaves an empty piece there, and the empty string splits
  into one empty piece. The flag says that the previous code unit was white space.
\<close>

fun splitRuns :: "bool \<Rightarrow> jsstring \<Rightarrow> jsstring list" where
  "splitRuns inRun [] = [[]]"
| "splitRuns inRun (c # cs) =
     (if isSpace c then (if inRun then splitRuns True cs else [] # splitRuns True cs)
      else (case splitRuns False cs of
              [] \<Rightarrow> [[c]]
            | w # ws \<Rightarrow> (c # w) # ws))"

definition splitWhitespace :: "jsstring \<Rightarrow> jsstring list" where
  "splitWhitespace s = splitRuns False s"

text \<open>The decimal rendering of an array index, as a template literal inserts it.\<close>

function decimal :: "nat \<Rightarrow> jsstring" where
  "decimal n = (if n < 10 then [48 + n] else decimal (n div 10) @ [48 + n mod 10])"
  by pat_completeness auto
termination
  by (relation "measure (\<lambda>n. n)") auto

declare decimal.simps [simp del]

subsection \<open>Numbers\<close>

text \<open>
  Scores are JavaScript numbers. Finite values are modelled as exact rationals (rounding
  of binary floating point is not modelled); \<open>NaN\<close> is kept as a value of its own,
  because \<^verbatim>\<open>0 / 0\<close> produces it and every comparison with it is false.
\<close>

datatype jsnum = NaN | Num rat

text \<open>\<^verbatim>\<open>a.length / b.length\<close>. A positive length over zero would be \<^verbatim>\<open>Infinity\<close>; the
  only division of the program has a zero dividend whenever the divisor is zero (lemma
  \<open>union_empty_intersection_empty\<close> below), so that value is not part of the model.\<close>

definition divLengths :: "nat \<Rightarrow> nat \<Rightarrow> jsnum" where
  "divLengths a b = (if b = 0 then NaN else Num (of_nat a / of_nat b))"

definition plus_num :: "jsnum \<Rightarrow> rat \<Rightarrow> jsnum" where
  "plus_num x y = (case x of NaN \<Rightarrow> NaN | Num a \<Rightarrow> Num (a + y))"

text \<open>\<^verbatim>\<open>Math.min(x, y)\<close> is \<open>NaN\<close> when an argument is.\<close>

definition mathMin :: "jsnum \<Rightarrow> rat \<Rightarrow> jsnum" where
  "mathMin x y = (case x of NaN \<Rightarrow> NaN | Num a \<Rightarrow> Num (min a y))"

subsection \<open>Tokenizer and similarity score\<close>

text \<open>
  \<^verbatim>\<open>
  tokenize(text) {
      return text
          .replace(/[^\w\s]/g, ' ')
          .split(/\s+/)
          .filter(token => token.length > 2)
          .map(token => token.toLowerCase());
  }
  \<close>
\<close>

definition replacePunctuation :: "jsstring \<Rightarrow> jsstring" where
  "replacePunctuation text = map (\<lambda>c. if isWord c \<or> isSpace c then c else 32) text"

definition tokenize :: "jsstring \<Rightarrow> jsstring list" where
  "tokenize text =
     map toLowerCase
       (filter (\<lambda>token. length token > 2) (splitWhitespace (replacePunctuation text)))"

text \<open>\<^verbatim>\<open>[...new Set(xs)]\<close>: the distinct values of \<open>xs\<close>, each at its first position.\<close>

definition newSet :: "'a list \<Rightarrow> 'a list" where
  "newSet xs = rev (remdups (rev xs))"

definition questionWords :: "jsstring list" where
  "questionWords =
     [js ''how'', js ''what'', js ''where'', js ''when'', js ''why'', js ''who'', js ''which'']"

definition intersection :: "jsstring list \<Rightarrow> jsstring list \<Rightarrow> jsstring list" where
  "intersection queryTokens docTokens = filter (\<lambda>token. token \<in> set docTokens) queryTokens"

definition union_tokens :: "jsstring list \<Rightarrow> jsstring list \<Rightarrow> jsstring list" where
  "union_tokens queryTokens docTokens = newSet (queryTokens @ docTokens)"

definition jaccard :: "jsstring list \<Rightarrow> jsstring list \<Rightarrow> jsnum" where
  "jaccard queryTokens docTokens =
     divLengths (length (intersection queryTokens docTokens))
                (length (union_tokens queryTokens docTokens))"

text \<open>The loop over \<^verbatim>\<open>questionWords\<close> that adds 0.1 for each word in both lists.\<close>

fun boostLoop :: "jsstring list \<Rightarrow> jsstring list \<Rightarrow> jsstring list \<Rightarrow> rat \<Rightarrow> rat" where
  "boostLoop [] queryTokens docTokens questionBoost = questionBoost"
| "boostLoop (word # rest) queryTokens docTokens questionBoost =
     boostLoop rest queryTokens docTokens
       (if word \<in> set queryTokens \<and> word \<in> set docTokens
        then questionBoost + 1 / 10 else questionBoost)"

definition calculateQuestionSimilarity :: "jsstring list \<Rightarrow> jsstring list \<Rightarrow> jsnum" where
  "calculateQuestionSimilarity queryTokens docTokens =
     mathMin (plus_num (jaccard queryTokens docTokens)
                   (boostLoop questionWords queryTokens docTokens 0)) 1"

subsection \<open>Documents and their loading\<close>

text \<open>
  A row of the CSV file, as \<^verbatim>\<open>csv-parser\<close> delivers it: each column is a string, or is
  absent from the row object (\<^verbatim>\<open>undefined\<close>).
\<close>

record row =
  row_question :: "jsstring option"
  row_answer :: "jsstring option"
  row_source :: "jsstring option"

record metadata =
  source :: jsstring
  question :: jsstring
  answer :: jsstring
  qa_pair_id :: nat
  question_length :: nat
  answer_length :: nat
  doc_type :: jsstring

record doc =
  docId :: jsstring
  content :: jsstring
  metadata :: metadata
  tokens :: "jsstring list"

text \<open>A column is truthy when it is present and not the empty string.\<close>

definition truthy :: "jsstring option \<Rightarrow> bool" where
  "truthy v = (case v of None \<Rightarrow> False | Some s \<Rightarrow> s \<noteq> [])"

text \<open>\<^verbatim>\<open>v || dflt\<close> on a column.\<close>

definition orElse :: "jsstring option \<Rightarrow> jsstring \<Rightarrow> jsstring" where
  "orElse v dflt = (case v of None \<Rightarrow> dflt | Some s \<Rightarrow> if s = [] then dflt else s)"

text \<open>
  The body of the loop of \<^verbatim>\<open>loadDocuments\<close> for one row: \<open>None\<close> where the source
  says \<^verbatim>\<open>continue\<close>, the pushed document otherwise.
\<close>

definition makeDocument :: "nat \<Rightarrow> row \<Rightarrow> doc option" where
  "makeDocument index r =
     (if truthy (row_question r) \<and> truthy (row_answer r) then
        (let question = trim (orElse (row_question r) []);
             answer = trim (orElse (row_answer r) []);
             source = orElse (row_source r) (js ''unknown'')
         in if question = [] \<or> question = js ''nan'' \<or> length question < 10 then None
            else if answer = [] \<or> answer = js ''nan'' \<or> length answer < 10 then None
            else Some \<lparr> docId = js ''question_'' @ decimal index,
                        content = question,
                        metadata = \<lparr> source = source, question = question, answer = answer,
                                     qa_pair_id = index,
                                     question_length = length question,
                                     answer_length = length answer,
                                     doc_type = js ''qa'' \<rparr>,
                        tokens = tokenize (toLowerCase question) \<rparr>)
      else None)"

text \<open>The loop \<^verbatim>\<open>for (let index = 0; index < data.length; index++)\<close>, from \<open>index\<close> on.\<close>

fun loadLoop :: "nat \<Rightarrow> row list \<Rightarrow> doc list" where
  "loadLoop index [] = []"
| "loadLoop index (r # rest) =
     (case makeDocument index r of
        None \<Rightarrow> loadLoop (Suc index) rest
      | Some d \<Rightarrow> d # loadLoop (Suc index) rest)"

text \<open>
  The store is the object's mutable state.
\<close>

record store =
  documents :: "doc list"
  initialized :: bool

definition newStore :: store where
  "newStore = \<lparr> documents = [], initialized = False \<rparr>"

text \<open>
  A method is asynchronous: its promise is fulfilled with a value (and the new state),
  is rejected with an error, or never settles.
\<close>

datatype error = ParserError

datatype 'a outcome = Fulfilled 'a | Rejected error | Unsettled

text \<open>
  What reading the CSV file gives: the rows; an error raised by the parser while the file
  is read; or an error of the file's read stream (the file cannot be opened or read).
  Within one call of a search the file reads the same each time it is read.
\<close>

datatype corpus_source = Rows "row list" | ParserFailure error | ReadFailure

text \<open>
  \<^verbatim>\<open>
  loadCSV() {
      return new Promise((resolve, reject) => {
          const results = [];
          fs.createReadStream(this.csvFile)
              .pipe(csv())
              .on('data', (data) => results.push(data))
              .on('end', () => resolve(results))
              .on('error', reject);
      });
  }
  \<close>
  \<^verbatim>\<open>pipe\<close> returns its argument, so the three listeners are on the parser, and the read
  stream of the file has none. An error of the parser rejects the promise. An error of
  the read stream is an \<^verbatim>\<open>error\<close> event without a listener, which Node raises as an
  uncaught exception; \<^verbatim>\<open>pipe\<close> does not pass it on and does not end the parser, so
  neither \<^verbatim>\<open>resolve\<close> nor \<^verbatim>\<open>reject\<close> is called and the promise never settles.
\<close>

definition loadCSV :: "corpus_source \<Rightarrow> row list outcome" where
  "loadCSV src =
     (case src of
        Rows data \<Rightarrow> Fulfilled data
      | ParserFailure e \<Rightarrow> Rejected e
      | ReadFailure \<Rightarrow> Unsettled)"

text \<open>
  \<^verbatim>\<open>loadDocuments\<close> awaits the rows before it assigns \<^verbatim>\<open>this.documents\<close>; its
  \<^verbatim>\<open>catch\<close> logs and throws the error again. An \<^verbatim>\<open>await\<close> on a promise that never
  settles never resumes.
\<close>

definition loadDocuments :: "corpus_source \<Rightarrow> store \<Rightarrow> store outcome" where
  "loadDocuments src st =
     (case loadCSV src of
        Fulfilled data \<Rightarrow> Fulfilled (st\<lparr> documents := loadLoop 0 data \<rparr>)
      | Rejected e \<Rightarrow> Rejected e
      | Unsettled \<Rightarrow> Unsettled)"

definition initialize :: "corpus_source \<Rightarrow> store \<Rightarrow> store outcome" where
  "initialize src st =
     (if \<not> initialized st then
        (case loadDocuments src st of
           Fulfilled st' \<Rightarrow> Fulfilled (st'\<lparr> initialized := True \<rparr>)
         | Rejected e \<Rightarrow> Rejected e
         | Unsettled \<Rightarrow> Unsettled)
      else Fulfilled st)"

subsection \<open>The two searches and their fusion\<close>

text \<open>A scored result. Its \<^verbatim>\<open>similarity\<close> is always a finite number (see the loops).\<close>

record result =
  document :: jsstring
  result_metadata :: metadata
  similarity :: rat

text \<open>
  \<^verbatim>\<open>results.sort((a, b) => b.similarity - a.similarity)\<close>. The scores in the array are
  finite, so the comparator is a total preorder, and \<^verbatim>\<open>Array.prototype.sort\<close> is stable:
  the outcome is the one arrangement in descending score that keeps equal scores in
  their order, which the stable insertion sort on the negated score computes.
\<close>

definition sortBySimilarity :: "result list \<Rightarrow> result list" where
  "sortBySimilarity results = sort_key (\<lambda>r. - similarity r) results"

text \<open>\<^verbatim>\<open>xs.slice(0, k)\<close> for a count \<open>k\<close> (the callers pass 5).\<close>

definition slice0 :: "nat \<Rightarrow> 'a list \<Rightarrow> 'a list" where
  "slice0 k xs = take k xs"

text \<open>
  The loop of \<^verbatim>\<open>similaritySearch\<close> over the documents. The test
  \<^verbatim>\<open>similarity >= threshold\<close> is false when the score is \<open>NaN\<close>, so every score that is
  pushed is a number; the threshold is a finite number.
\<close>

fun similarityLoop :: "jsstring list \<Rightarrow> rat \<Rightarrow> doc list \<Rightarrow> result list" where
  "similarityLoop queryTokens threshold [] = []"
| "similarityLoop queryTokens threshold (d # rest) =
     (case calculateQuestionSimilarity queryTokens (tokens d) of
        NaN \<Rightarrow> similarityLoop queryTokens threshold rest
      | Num s \<Rightarrow>
          if threshold \<le> s
          then \<lparr> document = content d, result_metadata = metadata d, similarity = s \<rparr>
               # similarityLoop queryTokens threshold rest
          else similarityLoop queryTokens threshold rest)"

definition similarityResults :: "doc list \<Rightarrow> jsstring \<Rightarrow> nat \<Rightarrow> rat \<Rightarrow> result list" where
  "similarityResults docs query k threshold =
     (let queryTokens = tokenize (toLowerCase query);
          results = similarityLoop queryTokens threshold docs
      in slice0 k (sortBySimilarity results))"

text \<open>
  The \<^verbatim>\<open>catch\<close> of each search returns the empty array for every error thrown in its
  body, the rejection of \<^verbatim>\<open>initialize\<close> among them. It does not run while the body waits.
\<close>

definition similaritySearch ::
  "corpus_source \<Rightarrow> store \<Rightarrow> jsstring \<Rightarrow> nat \<Rightarrow> rat \<Rightarrow> (store \<times> result list) outcome" where
  "similaritySearch src st query k threshold =
     (case initialize src st of
        Fulfilled st' \<Rightarrow> Fulfilled (st', similarityResults (documents st') query k threshold)
      | Rejected e \<Rightarrow> Fulfilled (st, [])
      | Unsettled \<Rightarrow> Unsettled)"

text \<open>The inner loop of \<^verbatim>\<open>keywordSearch\<close> over the query words, on the running score.\<close>

fun wordLoop :: "jsstring list \<Rightarrow> jsstring \<Rightarrow> jsstring \<Rightarrow> rat \<Rightarrow> rat" where
  "wordLoop [] questionLower answerLower score = score"
| "wordLoop (word # rest) questionLower answerLower score =
     (let score1 = (if includes_str questionLower word then score + 2 else score);
          score2 = (if includes_str answerLower word then score1 + 1 else score1)
      in wordLoop rest questionLower answerLower score2)"

text \<open>The score of one document before the division by 10.\<close>

definition keywordScore :: "jsstring \<Rightarrow> jsstring list \<Rightarrow> doc \<Rightarrow> rat" where
  "keywordScore queryLower queryWords d =
     (let questionLower = toLowerCase (question (metadata d));
          answerLower = toLowerCase (answer (metadata d));
          score0 = 0;
          score1 = (if includes_str questionLower queryLower then score0 + 3 else score0);
          score2 = (if includes_str answerLower queryLower then score1 + 2 else score1);
          score3 = wordLoop queryWords questionLower answerLower score2;
          score4 = (if includes_str (toLowerCase (source (metadata d))) queryLower
                    then score3 + 1 / 2 else score3)
      in score4)"

fun keywordLoop :: "jsstring \<Rightarrow> jsstring list \<Rightarrow> doc list \<Rightarrow> result list" where
  "keywordLoop queryLower queryWords [] = []"
| "keywordLoop queryLower queryWords (d # rest) =
     (let score = keywordScore queryLower queryWords d
      in if score > 0
         then \<lparr> document = content d, result_metadata = metadata d, similarity = score / 10 \<rparr>
              # keywordLoop queryLower queryWords rest
         else keywordLoop queryLower queryWords rest)"

definition keywordResults :: "doc list \<Rightarrow> jsstring \<Rightarrow> nat \<Rightarrow> result list" where
  "keywordResults docs query k =
     (let queryLower = toLowerCase query;
          queryWords = filter (\<lambda>word. length word > 2) (splitWhitespace queryLower);
          results = keywordLoop queryLower queryWords docs
      in slice0 k (sortBySimilarity results))"

definition keywordSearch ::
  "corpus_source \<Rightarrow> store \<Rightarrow> jsstring \<Rightarrow> nat \<Rightarrow> (store \<times> result list) outcome" where
  "keywordSearch src st query k =
     (case initialize src st of
        Fulfilled st' \<Rightarrow> Fulfilled (st', keywordResults (documents st') query k)
      | Rejected e \<Rightarrow> Fulfilled (st, [])
      | Unsettled \<Rightarrow> Unsettled)"

text \<open>The loop of \<^verbatim>\<open>questionSearch\<close> that keeps the first result of each \<^verbatim>\<open>qa_pair_id\<close>.\<close>

fun uniqueLoop :: "nat set \<Rightarrow> result list \<Rightarrow> result list" where
  "uniqueLoop seenIds [] = []"
| "uniqueLoop seenIds (r # rest) =
     (let i = qa_pair_id (result_metadata r)
      in if i \<notin> seenIds then r # uniqueLoop (insert i seenIds) rest
         else uniqueLoop seenIds rest)"

definition fuse :: "result list \<Rightarrow> result list \<Rightarrow> nat \<Rightarrow> result list" where
  "fuse similarityRes keywordRes k =
     (let allResults = similarityRes @ keywordRes;
          uniqueResults = uniqueLoop {} allResults
      in slice0 k (sortBySimilarity uniqueResults))"

definition questionSearch ::
  "corpus_source \<Rightarrow> store \<Rightarrow> jsstring \<Rightarrow> nat \<Rightarrow> rat \<Rightarrow> (store \<times> result list) outcome" where
  "questionSearch src st query k threshold =
     (case similaritySearch src st query k threshold of
        Fulfilled (st1, similarityRes) \<Rightarrow>
          (case keywordSearch src st1 query k of
             Fulfilled (st2, keywordRes) \<Rightarrow> Fulfilled (st2, fuse similarityRes keywordRes k)
           | Rejected e \<Rightarrow> Fulfilled (st1, [])
           | Unsettled \<Rightarrow> Unsettled)
      | Rejected e \<Rightarrow> Fulfilled (st, [])
      | Unsettled \<Rightarrow> Unsettled)"

subsection \<open>Definitions taken from the design document\<close>

text \<open>
  The Jaccard similarity as the design document's glossary words it: the size of the
  intersection of the two token sets over the size of their union. It is compared
  below with \<open>jaccard\<close>, which is the ratio the program computes.
\<close>

definition jaccardOfSets :: "jsstring list \<Rightarrow> jsstring list \<Rightarrow> rat" where
  "jaccardOfSets queryTokens docTokens =
     of_nat (card (set queryTokens \<inter> set docTokens))
       / of_nat (card (set queryTokens \<union> set docTokens))"

subsection \<open>Invariant of the store\<close>

text \<open>
  The documents of a store are only ever assigned by \<open>loadDocuments\<close>. What the loop
  establishes for them: the content of a document is its question, its tokens are the
  tokens of the lower-cased question, and the \<^verbatim>\<open>qa_pair_id\<close>s increase along the list.
  A store that is not initialized has no documents.
\<close>

definition wellFormedDoc :: "doc \<Rightarrow> bool" where
  "wellFormedDoc d \<longleftrightarrow>
     content d = question (metadata d) \<and> tokens d = tokenize (toLowerCase (content d))"

definition storeInv :: "store \<Rightarrow> bool" where
  "storeInv st \<longleftrightarrow>
     list_all wellFormedDoc (documents st) \<and>
     sorted_wrt (<) (map (\<lambda>d. qa_pair_id (metadata d)) (documents st)) \<and>
     (initialized st \<or> documents st = [])"

text \<open>The identity of a result, and lists in descending order of score.\<close>

abbreviation resultId :: "result \<Rightarrow> nat" where
  "resultId r \<equiv> qa_pair_id (result_metadata r)"

definition descending :: "result list \<Rightarrow> bool" where
  "descending rs = sorted_wrt (\<lambda>a b. similarity b \<le> similarity a) rs"

text \<open>
  The keyword score as the design document words it, on a lower-cased query and three
  texts: 3 if the query occurs in the question, 2 if it occurs in the answer, for each
  white-space delimited query word longer than two code units 2 if the word occurs in
  the question and 1 if it occurs in the answer, a half if the query occurs in the
  source; the sum divided by 10.
\<close>

definition keywordFormula :: "jsstring \<Rightarrow> jsstring \<Rightarrow> jsstring \<Rightarrow> jsstring \<Rightarrow> rat" where
  "keywordFormula queryLower questionText answerText sourceText =
     ((if includes_str questionText queryLower then 3 else 0)
      + (if includes_str answerText queryLower then 2 else 0)
      + sum_list (map (\<lambda>word. (if includes_str questionText word then 2 else 0)
                               + (if includes_str answerText word then 1 else 0))
                      (filter (\<lambda>word. length word > 2) (splitWhitespace queryLower)))
      + (if includes_str sourceText queryLower then 1 / 2 else 0)) / 10"

text \<open>
  The document says that the lower-cased query is looked for in the question, the answer
  and the source of the document: \<open>claimedKeywordScore\<close> applies the formula to these
  fields as they are stored. \<open>lowerCasedKeywordScore\<close> applies it to the lower-cased
  fields.
\<close>

definition claimedKeywordScore :: "jsstring \<Rightarrow> doc \<Rightarrow> rat" where
  "claimedKeywordScore query d =
     keywordFormula (toLowerCase query)
       (question (metadata d)) (answer (metadata d)) (source (metadata d))"

definition lowerCasedKeywordScore :: "jsstring \<Rightarrow> doc \<Rightarrow> rat" where
  "lowerCasedKeywordScore query d =
     keywordFormula (toLowerCase query)
       (toLowerCase (question (metadata d))) (toLowerCase (answer (metadata d)))
       (toLowerCase (source (metadata d)))"

text \<open>
  The results of the documents of positive score, in corpus order, each with the score of
  the formula on the lower-cased fields.
\<close>

definition keywordCandidates :: "jsstring \<Rightarrow> doc list \<Rightarrow> result list" where
  "keywordCandidates query docs =
     map (\<lambda>d. \<lparr> document = content d, result_metadata = metadata d,
                similarity = lowerCasedKeywordScore query d \<rparr>)
         (filter (\<lambda>d. 0 < lowerCasedKeywordScore query d) docs)"

text \<open>
  The lower-case form of a code unit other than U+0130 and U+212A is one code unit.
\<close>

definition lowerSimple :: "nat \<Rightarrow> nat" where
  "lowerSimple c =
     (if (65 \<le> c \<and> c \<le> 90) \<or> (192 \<le> c \<and> c \<le> 222 \<and> c \<noteq> 215) then c + 32 else c)"

subsection \<open>A concrete corpus\<close>

text \<open>
  Four rows, the second of which is skipped for its short question, the three documents
  they load as, a query equal to the first stored question, and the results of the two
  searches for it.
\<close>

definition rowsA :: "row list" where
  "rowsA =
     [\<lparr> row_question = Some (js '' Reset password''),
        row_answer = Some (js ''open the settings page''),
        row_source = None \<rparr>,
      \<lparr> row_question = Some (js ''short''),
        row_answer = Some (js ''irrelevant text here''),
        row_source = None \<rparr>,
      \<lparr> row_question = Some (js ''reset password for the admin portal and vpn access''),
        row_answer = Some (js ''reset password is possible under admin settings''),
        row_source = Some (js ''wiki'') \<rparr>,
      \<lparr> row_question = Some (js ''How to deploy''),
        row_answer = Some (js ''use the pipeline tool''),
        row_source = Some (js ''runbook'') \<rparr>]"

definition metaA0 :: metadata where
  "metaA0 = \<lparr> source = js ''unknown'', question = js ''Reset password'',
               answer = js ''open the settings page'', qa_pair_id = 0,
               question_length = 14, answer_length = 22, doc_type = js ''qa'' \<rparr>"

definition metaA2 :: metadata where
  "metaA2 = \<lparr> source = js ''wiki'',
               question = js ''reset password for the admin portal and vpn access'',
               answer = js ''reset password is possible under admin settings'',
               qa_pair_id = 2, question_length = 50, answer_length = 47,
               doc_type = js ''qa'' \<rparr>"

definition metaA3 :: metadata where
  "metaA3 = \<lparr> source = js ''runbook'', question = js ''How to deploy'',
               answer = js ''use the pipeline tool'', qa_pair_id = 3,
               question_length = 13, answer_length = 21, doc_type = js ''qa'' \<rparr>"

definition docA0 :: doc where
  "docA0 = \<lparr> docId = js ''question_0'', content = js ''Reset password'', metadata = metaA0,
              tokens = [js ''reset'', js ''password''] \<rparr>"

definition docA2 :: doc where
  "docA2 = \<lparr> docId = js ''question_2'',
              content = js ''reset password for the admin portal and vpn access'',
              metadata = metaA2,
              tokens = [js ''reset'', js ''password'', js ''for'', js ''the'', js ''admin'',
                        js ''portal'', js ''and'', js ''vpn'', js ''access''] \<rparr>"

definition docA3 :: doc where
  "docA3 = \<lparr> docId = js ''question_3'', content = js ''How to deploy'', metadata = metaA3,
              tokens = [js ''how'', js ''deploy''] \<rparr>"

definition queryA :: jsstring where
  "queryA = js ''Reset password''"

definition resS0 :: result where
  "resS0 = \<lparr> document = js ''Reset password'', result_metadata = metaA0, similarity = 1 \<rparr>"

definition resK0 :: result where
  "resK0 = \<lparr> document = js ''Reset password'', result_metadata = metaA0, similarity = 7 / 10 \<rparr>"

definition resK2 :: result where
  "resK2 = \<lparr> document = js ''reset password for the admin portal and vpn access'',
              result_metadata = metaA2, similarity = 11 / 10 \<rparr>"

definition storeA :: store where
  "storeA = \<lparr> documents = [docA0, docA2, docA3], initialized = True \<rparr>"

definition storeLoadedA :: store where
  "storeLoadedA = \<lparr> documents = [docA0, docA2, docA3], initialized = False \<rparr>"

text \<open>A row whose question holds the Kelvin sign U+212A, and the document it loads as.\<close>

definition rowK :: row where
  "rowK = \<lparr> row_question = Some (js ''Heat at 300'' @ [8490] @ js '' now''),
             row_answer = Some (js ''about one joule''),
             row_source = None \<rparr>"

definition docK :: doc where
  "docK = \<lparr> docId = js ''question_0'',
             content = js ''Heat at 300'' @ [8490] @ js '' now'',
             metadata = \<lparr> source = js ''unknown'',
                          question = js ''Heat at 300'' @ [8490] @ js '' now'',
                          answer = js ''about one joule'',
                          qa_pair_id = 0, question_length = 16, answer_length = 15,
                          doc_type = js ''qa'' \<rparr>,
             tokens = [js ''heat'', js ''300k'', js ''now''] \<rparr>"

definition storeLoadedK :: store where
  "storeLoadedK = \<lparr> documents = [docK], initialized = False \<rparr>"

section \<open>Properties\<close>

subsection \<open>The similarity score\<close>

lemma length_newSet: "length (newSet xs) = card (set xs)"
  by (simp add: newSet_def length_remdups_card_conv)

lemma union_empty_intersection_empty:
  "length (union_tokens queryTokens docTokens) = 0 \<Longrightarrow>
   length (intersection queryTokens docTokens) = 0"
  by (simp add: union_tokens_def intersection_def length_newSet)

lemma boostLoop_lower: "b \<le> boostLoop ws queryTokens docTokens b"
proof (induction ws arbitrary: b)
  case Nil
  show ?case by simp
next
  case (Cons w ws)
  have "b \<le> (if w \<in> set queryTokens \<and> w \<in> set docTokens then b + 1 / 10 else b)"
    by simp
  also have "\<dots> \<le> boostLoop (w # ws) queryTokens docTokens b"
    using Cons.IH by simp
  finally show ?case .
qed

lemma jaccard_nonneg:
  assumes "queryTokens \<noteq> [] \<or> docTokens \<noteq> []"
  shows "\<exists>a. jaccard queryTokens docTokens = Num a \<and> 0 \<le> a"
proof -
  have "set (queryTokens @ docTokens) \<noteq> {}" using assms by auto
  then have "card (set (queryTokens @ docTokens)) \<noteq> 0" by (simp del: set_append)
  then show ?thesis
    by (simp add: jaccard_def divLengths_def union_tokens_def length_newSet del: set_append)
qed

text \<open>With a token on either side the score is a number between 0 and 1.\<close>

lemma calculateQuestionSimilarity_range:
  assumes "queryTokens \<noteq> [] \<or> docTokens \<noteq> []"
  shows "\<exists>s. calculateQuestionSimilarity queryTokens docTokens = Num s \<and> 0 \<le> s \<and> s \<le> 1"
proof -
  obtain a where a: "jaccard queryTokens docTokens = Num a" "0 \<le> a"
    using jaccard_nonneg [OF assms] by blast
  have "0 \<le> boostLoop questionWords queryTokens docTokens 0"
    by (rule boostLoop_lower)
  then show ?thesis
    using a by (simp add: calculateQuestionSimilarity_def plus_num_def mathMin_def)
qed

lemma calculateQuestionSimilarity_NaN:
  "calculateQuestionSimilarity [] [] = NaN"
  by (simp add: calculateQuestionSimilarity_def jaccard_def divLengths_def union_tokens_def
      newSet_def plus_num_def mathMin_def)

lemma calculateQuestionSimilarity_Num:
  assumes "calculateQuestionSimilarity queryTokens docTokens = Num s"
  shows "0 \<le> s \<and> s \<le> 1"
proof (cases "queryTokens \<noteq> [] \<or> docTokens \<noteq> []")
  case True
  then show ?thesis using calculateQuestionSimilarity_range [OF True] assms by auto
next
  case False
  then show ?thesis using assms calculateQuestionSimilarity_NaN by simp
qed

text \<open>Both token lists are empty for a two-letter query and a question of short words.\<close>

lemma empty_tokens_reachable:
  "tokenize (toLowerCase (js ''hi'')) = [] \<and> tokenize (toLowerCase (js ''Is it ok??'')) = []"
  by (simp add: js_def tokenize_def toLowerCase_def lowerUnit_def replacePunctuation_def
      splitWhitespace_def isSpace_def isWord_def)

text \<open>
  A document without tokens is skipped by the similarity loop for a query without tokens,
  whatever the threshold, also a threshold of 0 or less.
\<close>

lemma similarityLoop_skips_empty:
  "tokens d = [] \<Longrightarrow>
   similarityLoop [] threshold (d # rest) = similarityLoop [] threshold rest"
  by (simp add: calculateQuestionSimilarity_NaN)

text \<open>
  Claim C1. The score of \<open>calculateQuestionSimilarity\<close> is meant to lie between 0 and 1,
  and to be 0 when both token lists are empty. On the two empty lists the program
  divides the length 0 by the length 0: the score is \<open>NaN\<close>, which is no number of the
  interval, and not 0.
\<close>

theorem calculateQuestionSimilarity_empty:
  "calculateQuestionSimilarity [] [] = NaN \<and> calculateQuestionSimilarity [] [] \<noteq> Num 0"
  by (simp add: calculateQuestionSimilarity_def jaccard_def divLengths_def union_tokens_def
      newSet_def plus_num_def mathMin_def)

lemma jaccard_example:
  "jaccard [js ''abc'', js ''abc''] [js ''abc'', js ''xyz'', js ''def''] = Num (2 / 3)"
  by (simp add: jaccard_def intersection_def union_tokens_def newSet_def divLengths_def js_def)

lemma jaccardOfSets_example:
  "jaccardOfSets [js ''abc'', js ''abc''] [js ''abc'', js ''xyz'', js ''def''] = 1 / 3"
  by (simp add: jaccardOfSets_def js_def card_insert_if)

lemma similarity_example_repeated:
  "calculateQuestionSimilarity [js ''abc'', js ''abc''] [js ''abc'', js ''xyz'', js ''def'']
     = Num (2 / 3)"
  by (simp add: calculateQuestionSimilarity_def jaccard_def intersection_def union_tokens_def
      newSet_def divLengths_def questionWords_def plus_num_def mathMin_def js_def)

lemma similarity_example_single:
  "calculateQuestionSimilarity [js ''abc''] [js ''abc'', js ''xyz'', js ''def''] = Num (1 / 3)"
  by (simp add: calculateQuestionSimilarity_def jaccard_def intersection_def union_tokens_def
      newSet_def divLengths_def questionWords_def plus_num_def mathMin_def js_def)

lemma count_list_filter:
  "count_list (filter P xs) x = (if P x then count_list xs x else 0)"
  by (induction xs) auto

lemma intersection_multiplicity:
  "length (intersection queryTokens docTokens)
   = (\<Sum>t \<in> set queryTokens \<inter> set docTokens. count_list queryTokens t)"
proof -
  let ?kept = "filter (\<lambda>token. token \<in> set docTokens) queryTokens"
  have "set ?kept \<subseteq> set queryTokens \<inter> set docTokens" by auto
  then have "sum (count_list ?kept) (set queryTokens \<inter> set docTokens) = length ?kept"
    by (rule sum_count_set) simp
  moreover have "sum (count_list ?kept) (set queryTokens \<inter> set docTokens)
                 = sum (count_list queryTokens) (set queryTokens \<inter> set docTokens)"
    by (rule sum.cong) (simp_all add: count_list_filter)
  ultimately show ?thesis by (simp add: intersection_def)
qed

lemma union_distinct_values:
  "distinct (union_tokens queryTokens docTokens) \<and>
   set (union_tokens queryTokens docTokens) = set queryTokens \<union> set docTokens"
  by (auto simp: union_tokens_def newSet_def)

lemma intersection_exceeds_card:
  assumes "t \<in> set docTokens" and "1 < count_list queryTokens t"
  shows "card (set queryTokens \<inter> set docTokens) < length (intersection queryTokens docTokens)"
proof -
  let ?I = "set queryTokens \<inter> set docTokens"
  have "count_list queryTokens t \<noteq> 0" using assms(2) by simp
  then have "t \<in> set queryTokens" by (simp add: count_list_0_iff)
  then have tI: "t \<in> ?I" using assms(1) by simp
  have fin: "finite ?I" by simp
  have each: "1 \<le> count_list queryTokens x" if x: "x \<in> ?I - {t}" for x
  proof -
    have "x \<in> set queryTokens" using x by simp
    then have "count_list queryTokens x \<noteq> 0" by (simp add: count_list_0_iff)
    then show ?thesis by simp
  qed
  have "card (?I - {t}) = (\<Sum>x \<in> ?I - {t}. 1)" by simp
  also have "\<dots> \<le> (\<Sum>x \<in> ?I - {t}. count_list queryTokens x)"
    by (rule sum_mono) (rule each)
  finally have rest: "card (?I - {t}) \<le> (\<Sum>x \<in> ?I - {t}. count_list queryTokens x)" .
  have whole: "(\<Sum>x \<in> ?I. count_list queryTokens x)
               = count_list queryTokens t + (\<Sum>x \<in> ?I - {t}. count_list queryTokens x)"
    using fin tI by (rule sum.remove)
  have "card ?I = Suc (card (?I - {t}))"
    using fin tI by (rule card.remove)
  also have "\<dots> < count_list queryTokens t + (\<Sum>x \<in> ?I - {t}. count_list queryTokens x)"
    using rest assms(2) by linarith
  also have "\<dots> = length (intersection queryTokens docTokens)"
    by (simp only: intersection_multiplicity whole)
  finally show ?thesis .
qed

lemma jaccard_exceeds_sets:
  assumes "t \<in> set docTokens" and "1 < count_list queryTokens t"
  shows "\<exists>a. jaccard queryTokens docTokens = Num a \<and> jaccardOfSets queryTokens docTokens < a"
proof -
  have ne: "docTokens \<noteq> []" using assms(1) by auto
  then have pos: "0 < card (set queryTokens \<union> set docTokens)"
    by (simp add: card_gt_0_iff)
  have len: "length (union_tokens queryTokens docTokens) = card (set queryTokens \<union> set docTokens)"
    by (simp add: union_tokens_def length_newSet)
  have "jaccard queryTokens docTokens
        = Num (of_nat (length (intersection queryTokens docTokens))
               / of_nat (card (set queryTokens \<union> set docTokens)))"
    using ne by (simp add: jaccard_def divLengths_def len)
  moreover have "jaccardOfSets queryTokens docTokens
        < of_nat (length (intersection queryTokens docTokens))
          / of_nat (card (set queryTokens \<union> set docTokens))"
  proof -
    have "(of_nat (card (set queryTokens \<inter> set docTokens)) :: rat)
          < of_nat (length (intersection queryTokens docTokens))"
      using intersection_exceeds_card [OF assms] by (simp only: of_nat_less_iff)
    moreover have "(0 :: rat) < of_nat (card (set queryTokens \<union> set docTokens))"
      using pos by (simp only: of_nat_0_less_iff)
    ultimately show ?thesis
      unfolding jaccardOfSets_def by (rule divide_strict_right_mono)
  qed
  ultimately show ?thesis by blast
qed

text \<open>
  Claim C10. The intersection of \<open>calculateQuestionSimilarity\<close> keeps every occurrence
  of a query token that is in the document: its length is the sum, over the tokens common
  to both lists, of the number of their occurrences in the query. The union holds each
  value of either list once. So whenever a token of the document is repeated in the
  query, the ratio before the cap is above the Jaccard similarity of the two sets; and
  there are two queries with the same set of tokens that get different scores against one
  document.
\<close>

theorem duplicate_query_tokens_counted:
  "(\<forall>queryTokens docTokens.
      length (intersection queryTokens docTokens)
        = (\<Sum>t \<in> set queryTokens \<inter> set docTokens. count_list queryTokens t) \<and>
      distinct (union_tokens queryTokens docTokens) \<and>
      set (union_tokens queryTokens docTokens) = set queryTokens \<union> set docTokens) \<and>
   (\<forall>queryTokens docTokens t.
      t \<in> set docTokens \<and> 1 < count_list queryTokens t \<longrightarrow>
      (\<exists>a. jaccard queryTokens docTokens = Num a \<and> jaccardOfSets queryTokens docTokens < a)) \<and>
   (\<exists>queryTokens queryTokens' docTokens a t.
     set queryTokens = set queryTokens' \<and>
     t \<in> set docTokens \<and> count_list queryTokens t > 1 \<and>
     jaccard queryTokens docTokens = Num a \<and> jaccardOfSets queryTokens docTokens < a \<and>
     calculateQuestionSimilarity queryTokens docTokens
       \<noteq> calculateQuestionSimilarity queryTokens' docTokens)"
proof -
  have general: "\<forall>queryTokens docTokens.
      length (intersection queryTokens docTokens)
        = (\<Sum>t \<in> set queryTokens \<inter> set docTokens. count_list queryTokens t) \<and>
      distinct (union_tokens queryTokens docTokens) \<and>
      set (union_tokens queryTokens docTokens) = set queryTokens \<union> set docTokens"
    using intersection_multiplicity union_distinct_values by blast
  have above: "\<forall>queryTokens docTokens t.
      t \<in> set docTokens \<and> 1 < count_list queryTokens t \<longrightarrow>
      (\<exists>a. jaccard queryTokens docTokens = Num a \<and> jaccardOfSets queryTokens docTokens < a)"
    using jaccard_exceeds_sets by blast
  let ?q = "[js ''abc'', js ''abc'']" and ?q' = "[js ''abc'']"
  let ?d = "[js ''abc'', js ''xyz'', js ''def'']"
  have "set ?q = set ?q'" by simp
  moreover have "js ''abc'' \<in> set ?d \<and> count_list ?q (js ''abc'') > 1" by simp
  moreover have "jaccard ?q ?d = Num (2 / 3)" by (rule jaccard_example)
  moreover have "jaccardOfSets ?q ?d < 2 / 3" by (simp add: jaccardOfSets_example)
  moreover have "calculateQuestionSimilarity ?q ?d \<noteq> calculateQuestionSimilarity ?q' ?d"
    by (simp add: similarity_example_repeated similarity_example_single)
  ultimately have example: "\<exists>queryTokens queryTokens' docTokens a t.
     set queryTokens = set queryTokens' \<and>
     t \<in> set docTokens \<and> count_list queryTokens t > 1 \<and>
     jaccard queryTokens docTokens = Num a \<and> jaccardOfSets queryTokens docTokens < a \<and>
     calculateQuestionSimilarity queryTokens docTokens
       \<noteq> calculateQuestionSimilarity queryTokens' docTokens"
    by blast
  show ?thesis by (rule conjI [OF general conjI [OF above example]])
qed

lemma repeated_token_example:
  "js ''abc'' \<in> set [js ''abc'', js ''xyz'', js ''def''] \<and>
   1 < count_list [js ''abc'', js ''abc''] (js ''abc'')"
  by simp

text \<open>The query \<^verbatim>\<open>abc abc\<close> against the document tokens \<^verbatim>\<open>abc xyz def\<close>.\<close>

theorem duplicate_query_tokens_counted_witness:
  "js ''abc'' \<in> set [js ''abc'', js ''xyz'', js ''def''] \<and>
   1 < count_list [js ''abc'', js ''abc''] (js ''abc'') \<and>
   (\<exists>a. jaccard [js ''abc'', js ''abc''] [js ''abc'', js ''xyz'', js ''def''] = Num a \<and>
        jaccardOfSets [js ''abc'', js ''abc''] [js ''abc'', js ''xyz'', js ''def''] < a) \<and>
   length (intersection [js ''abc'', js ''abc''] [js ''abc'', js ''xyz'', js ''def''])
     = (\<Sum>t \<in> set [js ''abc'', js ''abc''] \<inter> set [js ''abc'', js ''xyz'', js ''def''].
          count_list [js ''abc'', js ''abc''] t) \<and>
   distinct (union_tokens [js ''abc'', js ''abc''] [js ''abc'', js ''xyz'', js ''def''])"
proof -
  let ?q = "[js ''abc'', js ''abc'']"
  let ?d = "[js ''abc'', js ''xyz'', js ''def'']"
  note w = duplicate_query_tokens_counted
  have general: "length (intersection ?q ?d)
     = (\<Sum>t \<in> set ?q \<inter> set ?d. count_list ?q t) \<and>
     distinct (union_tokens ?q ?d) \<and> set (union_tokens ?q ?d) = set ?q \<union> set ?d"
    using w [THEN conjunct1, rule_format, of ?q ?d] .
  have above: "\<exists>a. jaccard ?q ?d = Num a \<and> jaccardOfSets ?q ?d < a"
    using repeated_token_example
    by (rule w [THEN conjunct2, THEN conjunct1, rule_format, of "js ''abc''" ?d ?q])
  show ?thesis
    using repeated_token_example above general by simp
qed

subsection \<open>Sorting, slicing and the loops\<close>

lemma descending_sortBySimilarity: "descending (sortBySimilarity rs)"
proof -
  have "sorted (map (\<lambda>r. - similarity r) (sortBySimilarity rs))"
    by (simp add: sortBySimilarity_def)
  then show ?thesis by (simp add: descending_def sorted_map)
qed

lemma descending_slice0: "descending rs \<Longrightarrow> descending (slice0 k rs)"
  by (simp add: descending_def slice0_def sorted_wrt_take)

lemma set_sortBySimilarity [simp]: "set (sortBySimilarity rs) = set rs"
  by (simp add: sortBySimilarity_def)

lemma length_sortBySimilarity [simp]: "length (sortBySimilarity rs) = length rs"
  by (simp add: sortBySimilarity_def)

lemma set_slice0: "set (slice0 k rs) \<subseteq> set rs"
  by (simp add: slice0_def set_take_subset)

lemma length_slice0: "length (slice0 k rs) = min k (length rs)"
  by (simp add: slice0_def min.commute)

lemma stable_sortBySimilarity:
  "filter (\<lambda>r. similarity r = v) (sortBySimilarity rs) = filter (\<lambda>r. similarity r = v) rs"
proof -
  have "filter (\<lambda>r. - similarity r = - v) (sort_key (\<lambda>r. - similarity r) rs)
        = filter (\<lambda>r. - similarity r = - v) rs"
    by (rule sort_key_stable)
  then show ?thesis by (simp add: sortBySimilarity_def)
qed

lemma sorted_wrt_filter_take:
  assumes "sorted_wrt R (filter P xs)"
  shows "sorted_wrt R (filter P (take k xs))"
proof -
  have "filter P xs = filter P (take k xs) @ filter P (drop k xs)"
    by (metis append_take_drop_id filter_append)
  then show ?thesis using assms by (simp add: sorted_wrt_append)
qed

lemma similarityLoop_member:
  "r \<in> set (similarityLoop queryTokens threshold docs) \<Longrightarrow>
   \<exists>d \<in> set docs. result_metadata r = metadata d \<and> document r = content d \<and>
     threshold \<le> similarity r \<and>
     calculateQuestionSimilarity queryTokens (tokens d) = Num (similarity r)"
  by (induction docs) (auto split: jsnum.splits if_splits)

lemma similarityLoop_ids_increasing:
  "sorted_wrt (<) (map (\<lambda>d. qa_pair_id (metadata d)) docs) \<Longrightarrow>
   sorted_wrt (\<lambda>a b. resultId a < resultId b) (similarityLoop queryTokens threshold docs)"
proof (induction docs)
  case Nil
  show ?case by simp
next
  case (Cons d docs)
  have rest: "sorted_wrt (\<lambda>a b. resultId a < resultId b)
                (similarityLoop queryTokens threshold docs)"
    using Cons by simp
  have above: "\<forall>r \<in> set (similarityLoop queryTokens threshold docs).
                 qa_pair_id (metadata d) < resultId r"
    using Cons.prems similarityLoop_member by fastforce
  show ?case using rest above by (simp split: jsnum.splits)
qed

lemma ties_in_corpus_order:
  assumes "sorted_wrt (\<lambda>a b. resultId a < resultId b) cands"
  shows "sorted_wrt (\<lambda>a b. resultId a < resultId b)
           (filter (\<lambda>r. similarity r = v) (slice0 k (sortBySimilarity cands)))"
proof -
  have "sorted_wrt (\<lambda>a b. resultId a < resultId b) (filter (\<lambda>r. similarity r = v) cands)"
    using assms by (rule sorted_wrt_filter)
  then have "sorted_wrt (\<lambda>a b. resultId a < resultId b)
               (filter (\<lambda>r. similarity r = v) (sortBySimilarity cands))"
    by (simp add: stable_sortBySimilarity)
  then show ?thesis unfolding slice0_def by (rule sorted_wrt_filter_take)
qed

lemma initialize_documents:
  "initialize src st = Fulfilled st' \<Longrightarrow>
   (initialized st \<and> st' = st) \<or>
   (\<not> initialized st \<and> (\<exists>data. src = Rows data \<and> documents st' = loadLoop 0 data))"
  by (auto simp: initialize_def loadDocuments_def loadCSV_def split: if_splits outcome.splits corpus_source.splits)

subsection \<open>Loading\<close>



lemma makeDocument_Some:
  assumes "makeDocument index r = Some d"
  shows "\<exists>q a. row_question r = Some q \<and> row_answer r = Some a \<and>
           question (metadata d) = trim q \<and> answer (metadata d) = trim a \<and>
           10 \<le> length (trim q) \<and> 10 \<le> length (trim a) \<and>
           trim q \<noteq> js ''nan'' \<and> trim a \<noteq> js ''nan'' \<and>
           source (metadata d) = orElse (row_source r) (js ''unknown'') \<and>
           qa_pair_id (metadata d) = index \<and>
           question_length (metadata d) = length (trim q) \<and>
           answer_length (metadata d) = length (trim a) \<and>
           content d = trim q \<and> tokens d = tokenize (toLowerCase (trim q)) \<and>
           docId d = js ''question_'' @ decimal index"
  using assms
  by (auto simp: makeDocument_def truthy_def orElse_def Let_def
      split: option.splits if_splits)

lemma loadLoop_member:
  "d \<in> set (loadLoop index rows) \<Longrightarrow>
   \<exists>j < length rows. makeDocument (index + j) (rows ! j) = Some d"
proof (induction rows arbitrary: index)
  case Nil
  then show ?case by simp
next
  case (Cons r rest)
  show ?case
  proof (cases "makeDocument index r = Some d")
    case True
    then have "makeDocument (index + 0) ((r # rest) ! 0) = Some d" by simp
    then show ?thesis by blast
  next
    case False
    then have "d \<in> set (loadLoop (Suc index) rest)"
      using Cons.prems by (auto split: option.splits)
    then obtain j where "j < length rest" "makeDocument (Suc index + j) (rest ! j) = Some d"
      using Cons.IH by blast
    then have "Suc j < length (r # rest) \<and>
               makeDocument (index + Suc j) ((r # rest) ! Suc j) = Some d"
      by simp
    then show ?thesis by blast
  qed
qed

lemma loadLoop_ids:
  "map (\<lambda>d. qa_pair_id (metadata d)) (loadLoop index rows)
   = map fst (filter (\<lambda>(i, r). makeDocument i r \<noteq> None) (enumerate index rows))"
proof (induction rows arbitrary: index)
  case Nil
  show ?case by simp
next
  case (Cons r rest)
  show ?case
  proof (cases "makeDocument index r")
    case None
    then show ?thesis using Cons.IH [of "Suc index"] by simp
  next
    case (Some d)
    then have "qa_pair_id (metadata d) = index" using makeDocument_Some by blast
    then show ?thesis using Some Cons.IH [of "Suc index"] by simp
  qed
qed

lemma loadLoop_ids_increasing:
  "sorted_wrt (<) (map (\<lambda>d. qa_pair_id (metadata d)) (loadLoop index rows))"
proof -
  have "sorted_wrt (<) (map fst (enumerate index rows))" by simp
  then have "sorted_wrt (\<lambda>a b. fst a < fst b) (enumerate index rows)"
    by (simp only: sorted_wrt_map)
  then have "sorted_wrt (\<lambda>a b. fst a < fst b)
               (filter (\<lambda>(i, r). makeDocument i r \<noteq> None) (enumerate index rows))"
    by (rule sorted_wrt_filter)
  then show ?thesis by (simp only: loadLoop_ids sorted_wrt_map)
qed

lemma loadLoop_wellFormed: "list_all wellFormedDoc (loadLoop index rows)"
proof -
  have "wellFormedDoc d" if mem: "d \<in> set (loadLoop index rows)" for d
  proof -
    obtain j where "makeDocument (index + j) (rows ! j) = Some d"
      using loadLoop_member [OF mem] by blast
    then show ?thesis using makeDocument_Some by (fastforce simp: wellFormedDoc_def)
  qed
  then show ?thesis by (simp add: list_all_iff)
qed

lemma storeInv_newStore: "storeInv newStore"
  by (simp add: storeInv_def newStore_def)

lemma storeInv_initialize:
  assumes "storeInv st" and "initialize src st = Fulfilled st'"
  shows "storeInv st'"
proof -
  from initialize_documents [OF assms(2)] show ?thesis
  proof
    assume "initialized st \<and> st' = st"
    then show ?thesis using assms(1) by simp
  next
    assume fresh: "\<not> initialized st \<and>
                   (\<exists>data. src = Rows data \<and> documents st' = loadLoop 0 data)"
    then have "initialized st'"
      using assms(2)
      by (auto simp: initialize_def loadDocuments_def loadCSV_def split: outcome.splits corpus_source.splits)
    then show ?thesis
      using fresh by (auto simp: storeInv_def loadLoop_wellFormed loadLoop_ids_increasing)
  qed
qed

subsection \<open>Similarity search\<close>

lemma similaritySearch_cases:
  assumes "similaritySearch src st query k threshold = Fulfilled (st', out)"
  shows "(initialize src st = Fulfilled st' \<and> out = similarityResults (documents st') query k threshold)
         \<or> ((\<exists>e. initialize src st = Rejected e) \<and> st' = st \<and> out = [])"
  using assms by (auto simp: similaritySearch_def split: outcome.splits corpus_source.splits)

lemma keywordSearch_cases:
  assumes "keywordSearch src st query k = Fulfilled (st', out)"
  shows "(initialize src st = Fulfilled st' \<and> out = keywordResults (documents st') query k)
         \<or> ((\<exists>e. initialize src st = Rejected e) \<and> st' = st \<and> out = [])"
  using assms by (auto simp: keywordSearch_def split: outcome.splits corpus_source.splits)

lemma similarityResults_length: "length (similarityResults docs query k threshold) \<le> k"
  by (simp add: similarityResults_def Let_def length_slice0)

lemma similarityResults_descending: "descending (similarityResults docs query k threshold)"
  by (simp add: similarityResults_def Let_def descending_slice0 descending_sortBySimilarity)

lemma similarityResults_member:
  assumes "r \<in> set (similarityResults docs query k threshold)"
  shows "\<exists>d \<in> set docs. result_metadata r = metadata d \<and> document r = content d \<and>
           threshold \<le> similarity r \<and>
           calculateQuestionSimilarity (tokenize (toLowerCase query)) (tokens d)
             = Num (similarity r)"
proof -
  have "r \<in> set (similarityLoop (tokenize (toLowerCase query)) threshold docs)"
    using assms set_slice0 by (fastforce simp: similarityResults_def Let_def)
  then show ?thesis by (rule similarityLoop_member)
qed

lemma similarityResults_ties:
  assumes "sorted_wrt (<) (map (\<lambda>d. qa_pair_id (metadata d)) docs)"
  shows "sorted_wrt (\<lambda>a b. resultId a < resultId b)
           (filter (\<lambda>r. similarity r = v) (similarityResults docs query k threshold))"
  unfolding similarityResults_def Let_def
  by (rule ties_in_corpus_order) (rule similarityLoop_ids_increasing [OF assms])

lemma wellFormed_content:
  "list_all wellFormedDoc docs \<Longrightarrow> d \<in> set docs \<Longrightarrow> content d = question (metadata d)"
  by (simp add: list_all_iff wellFormedDoc_def)

text \<open>
  Claim C5. For every query, count \<open>k\<close> and threshold, \<open>similaritySearch\<close> returns at
  most \<open>k\<close> results; every result has a score of at least the threshold; the results
  are in descending order of score, and results of equal score are in corpus order (their
  \<^verbatim>\<open>qa_pair_id\<close>s increase, as they do along the corpus); the \<^verbatim>\<open>document\<close> field of each
  result is the question of the document it was scored for.
\<close>

theorem similaritySearch_ranked:
  assumes inv: "storeInv st"
    and run: "similaritySearch src st query k threshold = Fulfilled (st', out)"
  shows "length out \<le> k \<and>
         (\<forall>r \<in> set out. threshold \<le> similarity r) \<and>
         descending out \<and>
         (\<forall>v. sorted_wrt (\<lambda>a b. resultId a < resultId b)
                (filter (\<lambda>r. similarity r = v) out)) \<and>
         (\<forall>r \<in> set out. \<exists>d \<in> set (documents st').
            result_metadata r = metadata d \<and> document r = question (metadata d) \<and>
            calculateQuestionSimilarity (tokenize (toLowerCase query)) (tokens d)
              = Num (similarity r))"
proof -
  from similaritySearch_cases [OF run] show ?thesis
  proof
    assume ok: "initialize src st = Fulfilled st' \<and>
                out = similarityResults (documents st') query k threshold"
    then have inv': "storeInv st'" using inv storeInv_initialize by blast
    have out: "out = similarityResults (documents st') query k threshold" using ok by simp
    have len: "length out \<le> k" unfolding out by (rule similarityResults_length)
    have thr: "\<forall>r \<in> set out. threshold \<le> similarity r"
      unfolding out using similarityResults_member by blast
    have desc: "descending out" unfolding out by (rule similarityResults_descending)
    have ties: "\<forall>v. sorted_wrt (\<lambda>a b. resultId a < resultId b)
                       (filter (\<lambda>r. similarity r = v) out)"
      unfolding out using inv' by (simp add: storeInv_def similarityResults_ties)
    have docs: "\<forall>r \<in> set out. \<exists>d \<in> set (documents st').
            result_metadata r = metadata d \<and> document r = question (metadata d) \<and>
            calculateQuestionSimilarity (tokenize (toLowerCase query)) (tokens d)
              = Num (similarity r)"
    proof
      fix r
      assume "r \<in> set out"
      then obtain d where d: "d \<in> set (documents st')" "result_metadata r = metadata d"
        "document r = content d"
        "calculateQuestionSimilarity (tokenize (toLowerCase query)) (tokens d)
           = Num (similarity r)"
        unfolding out using similarityResults_member by blast
      have "list_all wellFormedDoc (documents st')" using inv' by (simp add: storeInv_def)
      then have "content d = question (metadata d)" using d(1) by (rule wellFormed_content)
      then show "\<exists>d \<in> set (documents st').
            result_metadata r = metadata d \<and> document r = question (metadata d) \<and>
            calculateQuestionSimilarity (tokenize (toLowerCase query)) (tokens d)
              = Num (similarity r)"
        using d by auto
    qed
    show ?thesis using len thr desc ties docs by blast
  next
    assume "(\<exists>e. initialize src st = Rejected e) \<and> st' = st \<and> out = []"
    then show ?thesis by (simp add: descending_def)
  qed
qed

subsection \<open>The concrete corpus, evaluated\<close>

lemmas string_defs = Let_def js_def trim_def isSpace_def isWord_def toLowerCase_def lowerUnit_def
  replacePunctuation_def splitWhitespace_def tokenize_def

lemma makeDocument_A0: "makeDocument 0 (rowsA ! 0) = Some docA0"
  by (simp add: rowsA_def docA0_def metaA0_def makeDocument_def truthy_def orElse_def
      decimal.simps string_defs)

lemma makeDocument_A1: "makeDocument 1 (rowsA ! 1) = None"
  by (simp add: rowsA_def makeDocument_def truthy_def orElse_def string_defs)

lemma makeDocument_A2: "makeDocument 2 (rowsA ! 2) = Some docA2"
  by (simp add: rowsA_def docA2_def metaA2_def makeDocument_def truthy_def orElse_def
      decimal.simps string_defs)

lemma makeDocument_A3: "makeDocument 3 (rowsA ! 3) = Some docA3"
  by (simp add: rowsA_def docA3_def metaA3_def makeDocument_def truthy_def orElse_def
      decimal.simps string_defs)

lemma loadLoop_rowsA: "loadLoop 0 rowsA = [docA0, docA2, docA3]"
proof -
  have "rowsA = [rowsA ! 0, rowsA ! 1, rowsA ! 2, rowsA ! 3]" by (simp add: rowsA_def)
  then have "loadLoop 0 rowsA = loadLoop 0 [rowsA ! 0, rowsA ! 1, rowsA ! 2, rowsA ! 3]"
    by simp
  also have "\<dots> = [docA0, docA2, docA3]"
    using makeDocument_A0 makeDocument_A1 makeDocument_A2 makeDocument_A3
    by (simp add: numeral_2_eq_2 numeral_3_eq_3)
  finally show ?thesis .
qed

lemmas score_defs = calculateQuestionSimilarity_def jaccard_def intersection_def
  union_tokens_def newSet_def divLengths_def questionWords_def plus_num_def mathMin_def

lemma docA0_fields:
  "content docA0 = js ''Reset password''" "metadata docA0 = metaA0"
  by (simp_all add: docA0_def)

lemma docA2_fields:
  "content docA2 = js ''reset password for the admin portal and vpn access''"
  "metadata docA2 = metaA2"
  by (simp_all add: docA2_def)

lemma tokens_queryA: "tokenize (toLowerCase queryA) = [js ''reset'', js ''password'']"
  by (simp add: queryA_def string_defs)

lemma similarity_A0:
  "calculateQuestionSimilarity [js ''reset'', js ''password''] (tokens docA0) = Num 1"
  by (simp add: docA0_def score_defs js_def)

lemma similarity_A2:
  "calculateQuestionSimilarity [js ''reset'', js ''password''] (tokens docA2) = Num (2 / 9)"
  by (simp add: docA2_def score_defs js_def)

lemma similarity_A3:
  "calculateQuestionSimilarity [js ''reset'', js ''password''] (tokens docA3) = Num 0"
  by (simp add: docA3_def score_defs js_def)

lemma similarityResults_A:
  "similarityResults [docA0, docA2, docA3] queryA 5 (3 / 10) = [resS0]"
  by (simp add: similarityResults_def Let_def tokens_queryA similarity_A0 similarity_A2
      similarity_A3 resS0_def sortBySimilarity_def slice0_def docA0_fields)

lemma words_queryA:
  "filter (\<lambda>word. length word > 2) (splitWhitespace (toLowerCase queryA))
   = [js ''reset'', js ''password'']"
  by (simp add: queryA_def string_defs)

lemma lower_queryA: "toLowerCase queryA = js ''reset password''"
  by (simp add: queryA_def string_defs)

lemma keywordScore_A0:
  "keywordScore (js ''reset password'') [js ''reset'', js ''password''] docA0 = 7"
  by (simp add: keywordScore_def docA0_def metaA0_def js_def toLowerCase_def lowerUnit_def)

lemma keywordScore_A2:
  "keywordScore (js ''reset password'') [js ''reset'', js ''password''] docA2 = 11"
  by (simp add: keywordScore_def docA2_def metaA2_def js_def toLowerCase_def lowerUnit_def)

lemma keywordScore_A3:
  "keywordScore (js ''reset password'') [js ''reset'', js ''password''] docA3 = 0"
  by (simp add: keywordScore_def docA3_def metaA3_def js_def toLowerCase_def lowerUnit_def)

lemma keywordResults_A:
  "keywordResults [docA0, docA2, docA3] queryA 5 = [resK2, resK0]"
  by (simp add: keywordResults_def Let_def lower_queryA words_queryA [unfolded lower_queryA]
      keywordScore_A0 keywordScore_A2 keywordScore_A3 resK0_def resK2_def
      sortBySimilarity_def slice0_def docA0_fields docA2_fields)

lemma fuse_A: "fuse [resS0] [resK2, resK0] 5 = [resK2, resS0]"
  by (simp add: fuse_def resS0_def resK0_def resK2_def metaA0_def metaA2_def
      sortBySimilarity_def slice0_def)

lemma initialize_A: "initialize (Rows rowsA) newStore = Fulfilled storeA"
  by (simp add: initialize_def loadDocuments_def loadCSV_def newStore_def storeA_def
      loadLoop_rowsA)

lemma similaritySearch_A:
  "similaritySearch (Rows rowsA) newStore queryA 5 (3 / 10) = Fulfilled (storeA, [resS0])"
proof -
  have "documents storeA = [docA0, docA2, docA3]" by (simp add: storeA_def)
  then show ?thesis by (simp add: similaritySearch_def initialize_A similarityResults_A)
qed

text \<open>The similarity search on the concrete corpus, from a new store.\<close>

theorem similaritySearch_ranked_witness:
  "storeInv newStore \<and>
   similaritySearch (Rows rowsA) newStore queryA 5 (3 / 10) = Fulfilled (storeA, [resS0]) \<and>
   length [resS0] \<le> 5 \<and>
   3 / 10 \<le> similarity resS0 \<and>
   descending [resS0] \<and>
   sorted_wrt (\<lambda>a b. resultId a < resultId b) (filter (\<lambda>r. similarity r = 1) [resS0]) \<and>
   (\<exists>d \<in> set (documents storeA).
      result_metadata resS0 = metadata d \<and> document resS0 = question (metadata d) \<and>
      calculateQuestionSimilarity (tokenize (toLowerCase queryA)) (tokens d)
        = Num (similarity resS0))"
proof -
  note w = similaritySearch_ranked [OF storeInv_newStore similaritySearch_A]
  have threshold: "3 / 10 \<le> similarity resS0" using w by simp
  have ties: "sorted_wrt (\<lambda>a b. resultId a < resultId b)
                (filter (\<lambda>r. similarity r = 1) [resS0])"
    using w by blast
  have scored: "\<exists>d \<in> set (documents storeA).
      result_metadata resS0 = metadata d \<and> document resS0 = question (metadata d) \<and>
      calculateQuestionSimilarity (tokenize (toLowerCase queryA)) (tokens d)
        = Num (similarity resS0)"
    using w by simp
  show ?thesis
    using storeInv_newStore similaritySearch_A w threshold ties scored by blast
qed

subsection \<open>Keyword search\<close>

lemma wordLoop_sum:
  "wordLoop queryWords questionLower answerLower score
   = score + sum_list (map (\<lambda>word. (if includes_str questionLower word then 2 else 0)
                                    + (if includes_str answerLower word then 1 else 0))
                           queryWords)"
  by (induction queryWords arbitrary: score) (simp_all add: Let_def)

lemma keywordScore_formula:
  "keywordScore (toLowerCase query)
     (filter (\<lambda>word. length word > 2) (splitWhitespace (toLowerCase query))) d / 10
   = lowerCasedKeywordScore query d"
  by (simp add: keywordScore_def lowerCasedKeywordScore_def keywordFormula_def Let_def
      wordLoop_sum)

lemma keywordFormula_nonneg: "0 \<le> keywordFormula queryLower questionText answerText sourceText"
proof -
  have "0 \<le> sum_list (map (\<lambda>word. (if includes_str questionText word then 2 else 0)
                                    + (if includes_str answerText word then (1::rat) else 0))
                           (filter (\<lambda>word. length word > 2) (splitWhitespace queryLower)))"
    by (rule sum_list_nonneg) auto
  then show ?thesis by (simp add: keywordFormula_def)
qed

lemma keywordLoop_member:
  "r \<in> set (keywordLoop queryLower queryWords docs) \<Longrightarrow>
   \<exists>d \<in> set docs. result_metadata r = metadata d \<and> document r = content d \<and>
     similarity r = keywordScore queryLower queryWords d / 10 \<and>
     0 < keywordScore queryLower queryWords d"
  by (induction docs) (auto simp: Let_def split: if_splits)

lemma keywordLoop_length:
  "length (keywordLoop queryLower queryWords docs)
   = length (filter (\<lambda>d. 0 < keywordScore queryLower queryWords d) docs)"
  by (induction docs) (simp_all add: Let_def)

lemma keywordResults_member:
  assumes "r \<in> set (keywordResults docs query k)"
  shows "\<exists>d \<in> set docs. result_metadata r = metadata d \<and> document r = content d \<and>
           similarity r = lowerCasedKeywordScore query d \<and> 0 < similarity r"
proof -
  let ?ql = "toLowerCase query"
  let ?qw = "filter (\<lambda>word. length word > 2) (splitWhitespace ?ql)"
  have "r \<in> set (keywordLoop ?ql ?qw docs)"
    using assms set_slice0 by (fastforce simp: keywordResults_def Let_def)
  then obtain d where d: "d \<in> set docs" "result_metadata r = metadata d"
      "document r = content d" "similarity r = keywordScore ?ql ?qw d / 10"
      "0 < keywordScore ?ql ?qw d"
    using keywordLoop_member by blast
  have "similarity r = lowerCasedKeywordScore query d"
    using d(4) by (simp only: keywordScore_formula)
  moreover have "0 < similarity r" using d(4,5) by simp
  ultimately show ?thesis using d(1,2,3) by blast
qed

lemma keywordResults_length:
  "length (keywordResults docs query k)
   = min k (length (filter (\<lambda>d. 0 < lowerCasedKeywordScore query d) docs))"
proof -
  let ?ql = "toLowerCase query"
  let ?qw = "filter (\<lambda>word. length word > 2) (splitWhitespace ?ql)"
  have "(0 < lowerCasedKeywordScore query d) = (0 < keywordScore ?ql ?qw d)" for d
  proof -
    have "(0 < keywordScore ?ql ?qw d / 10) = (0 < keywordScore ?ql ?qw d)" by simp
    then show ?thesis by (simp only: keywordScore_formula)
  qed
  then show ?thesis
    by (simp add: keywordResults_def Let_def length_slice0 keywordLoop_length)
qed

lemma keywordResults_descending: "descending (keywordResults docs query k)"
  by (simp add: keywordResults_def Let_def descending_slice0 descending_sortBySimilarity)

lemma ids_distinct_docs:
  assumes "sorted_wrt (<) (map (\<lambda>d. qa_pair_id (metadata d)) docs)"
    and "d \<in> set docs" and "d' \<in> set docs"
    and "qa_pair_id (metadata d) = qa_pair_id (metadata d')"
  shows "d = d'"
proof -
  have "distinct (map (\<lambda>d. qa_pair_id (metadata d)) docs)"
    using assms(1) by (simp add: strict_sorted_iff)
  then have "inj_on (\<lambda>d. qa_pair_id (metadata d)) (set docs)"
    by (simp add: distinct_map)
  then show ?thesis using assms(2,3,4) by (auto dest: inj_onD)
qed

lemma keywordLoop_candidates:
  "keywordLoop (toLowerCase query)
     (filter (\<lambda>word. length word > 2) (splitWhitespace (toLowerCase query))) docs
   = keywordCandidates query docs"
proof (induction docs)
  case Nil
  show ?case by (simp add: keywordCandidates_def)
next
  case (Cons d docs)
  let ?ql = "toLowerCase query"
  let ?qw = "filter (\<lambda>word. length word > 2) (splitWhitespace ?ql)"
  have score: "keywordScore ?ql ?qw d / 10 = lowerCasedKeywordScore query d"
    by (rule keywordScore_formula)
  have "(0 < keywordScore ?ql ?qw d / 10) = (0 < keywordScore ?ql ?qw d)" by simp
  then have pos: "(0 < keywordScore ?ql ?qw d) = (0 < lowerCasedKeywordScore query d)"
    by (simp only: score)
  have rest: "keywordLoop ?ql ?qw docs = keywordCandidates query docs" by (rule Cons.IH)
  show ?case
  proof (cases "0 < lowerCasedKeywordScore query d")
    case True
    then have "0 < keywordScore ?ql ?qw d" using pos by simp
    then have "keywordLoop ?ql ?qw (d # docs)
        = \<lparr> document = content d, result_metadata = metadata d,
            similarity = keywordScore ?ql ?qw d / 10 \<rparr> # keywordLoop ?ql ?qw docs"
      by (simp add: Let_def)
    then show ?thesis using True rest score by (simp add: keywordCandidates_def)
  next
    case False
    then have "\<not> 0 < keywordScore ?ql ?qw d" using pos by simp
    then have "keywordLoop ?ql ?qw (d # docs) = keywordLoop ?ql ?qw docs"
      by (simp add: Let_def)
    then show ?thesis using False rest by (simp add: keywordCandidates_def)
  qed
qed

lemma keywordResults_ranked:
  "\<exists>ranked. keywordResults docs query k = take k ranked \<and> descending ranked \<and>
     (\<forall>v. filter (\<lambda>r. similarity r = v) ranked
          = filter (\<lambda>r. similarity r = v) (keywordCandidates query docs))"
proof -
  let ?ranked = "sortBySimilarity (keywordCandidates query docs)"
  have "keywordResults docs query k = take k ?ranked"
    by (simp add: keywordResults_def Let_def slice0_def keywordLoop_candidates)
  moreover have "descending ?ranked" by (rule descending_sortBySimilarity)
  moreover have "\<forall>v. filter (\<lambda>r. similarity r = v) ?ranked
          = filter (\<lambda>r. similarity r = v) (keywordCandidates query docs)"
    by (simp add: stable_sortBySimilarity)
  ultimately show ?thesis by blast
qed

text \<open>
  Claim C6, with the texts lower-cased. The score that \<open>keywordSearch\<close> gives a
  document is the sum of: 3 if the lower-cased query occurs in the lower-cased question,
  2 if it occurs in the lower-cased answer, for each white-space delimited word of the
  lower-cased query longer than two code units 2 if the word occurs in the lower-cased
  question and 1 if it occurs in the lower-cased answer, a half if the lower-cased query
  occurs in the lower-cased source; all divided by 10. The score is never negative; a
  document of score 0 has no result; the results are in descending order of score, and
  they are the first \<open>k\<close> of the arrangement of all the documents of positive score in
  descending order of score that keeps equal scores in corpus order.
\<close>

theorem keywordSearch_scores:
  assumes inv: "storeInv st"
    and run: "keywordSearch src st query k = Fulfilled (st', out)"
  shows "(\<forall>d. keywordScore (toLowerCase query)
               (filter (\<lambda>word. length word > 2) (splitWhitespace (toLowerCase query))) d / 10
             = lowerCasedKeywordScore query d \<and> 0 \<le> lowerCasedKeywordScore query d) \<and>
         (\<forall>r \<in> set out. \<exists>d \<in> set (documents st').
            result_metadata r = metadata d \<and>
            similarity r = lowerCasedKeywordScore query d \<and> 0 < similarity r) \<and>
         (\<forall>d \<in> set (documents st'). lowerCasedKeywordScore query d = 0 \<longrightarrow>
            (\<forall>r \<in> set out. resultId r \<noteq> qa_pair_id (metadata d))) \<and>
         descending out \<and>
         length out
           = min k (length (filter (\<lambda>d. 0 < lowerCasedKeywordScore query d) (documents st'))) \<and>
         (\<exists>ranked. out = take k ranked \<and> descending ranked \<and>
            (\<forall>v. filter (\<lambda>r. similarity r = v) ranked
                 = filter (\<lambda>r. similarity r = v) (keywordCandidates query (documents st'))))"
proof -
  have formula: "\<forall>d. keywordScore (toLowerCase query)
               (filter (\<lambda>word. length word > 2) (splitWhitespace (toLowerCase query))) d / 10
             = lowerCasedKeywordScore query d \<and> 0 \<le> lowerCasedKeywordScore query d"
    by (simp add: keywordScore_formula) (simp add: lowerCasedKeywordScore_def keywordFormula_nonneg)
  from keywordSearch_cases [OF run] show ?thesis
  proof
    assume ok: "initialize src st = Fulfilled st' \<and> out = keywordResults (documents st') query k"
    then have inv': "storeInv st'" using inv storeInv_initialize by blast
    have out: "out = keywordResults (documents st') query k" using ok by simp
    have ids: "sorted_wrt (<) (map (\<lambda>d. qa_pair_id (metadata d)) (documents st'))"
      using inv' by (simp add: storeInv_def)
    have members: "\<forall>r \<in> set out. \<exists>d \<in> set (documents st').
            result_metadata r = metadata d \<and>
            similarity r = lowerCasedKeywordScore query d \<and> 0 < similarity r"
      unfolding out using keywordResults_member by blast
    have excluded: "\<forall>d \<in> set (documents st'). lowerCasedKeywordScore query d = 0 \<longrightarrow>
            (\<forall>r \<in> set out. resultId r \<noteq> qa_pair_id (metadata d))"
    proof (intro ballI impI)
      fix d r
      assume d: "d \<in> set (documents st')" and zero: "lowerCasedKeywordScore query d = 0"
        and r: "r \<in> set out"
      obtain d' where d': "d' \<in> set (documents st')" "result_metadata r = metadata d'"
          "similarity r = lowerCasedKeywordScore query d'" "0 < similarity r"
        using members r by blast
      show "resultId r \<noteq> qa_pair_id (metadata d)"
      proof
        assume "resultId r = qa_pair_id (metadata d)"
        then have "qa_pair_id (metadata d') = qa_pair_id (metadata d)" using d'(2) by simp
        with ids d'(1) d have "d' = d" by (rule ids_distinct_docs)
        then show False using d'(3,4) zero by simp
      qed
    qed
    have desc: "descending out" unfolding out by (rule keywordResults_descending)
    have len: "length out
           = min k (length (filter (\<lambda>d. 0 < lowerCasedKeywordScore query d) (documents st')))"
      unfolding out by (rule keywordResults_length)
    have top: "\<exists>ranked. out = take k ranked \<and> descending ranked \<and>
            (\<forall>v. filter (\<lambda>r. similarity r = v) ranked
                 = filter (\<lambda>r. similarity r = v) (keywordCandidates query (documents st')))"
      unfolding out by (rule keywordResults_ranked)
    show ?thesis using formula members excluded desc len top by blast
  next
    assume failed: "(\<exists>e. initialize src st = Rejected e) \<and> st' = st \<and> out = []"
    then have "\<not> initialized st" by (auto simp: initialize_def split: if_splits)
    then have none: "documents st' = []" using inv failed by (simp add: storeInv_def)
    have "out = take k [] \<and> descending [] \<and>
            (\<forall>v. filter (\<lambda>r. similarity r = v) []
                 = filter (\<lambda>r. similarity r = v) (keywordCandidates query (documents st')))"
      using failed none by (simp add: descending_def keywordCandidates_def)
    then have top: "\<exists>ranked. out = take k ranked \<and> descending ranked \<and>
            (\<forall>v. filter (\<lambda>r. similarity r = v) ranked
                 = filter (\<lambda>r. similarity r = v) (keywordCandidates query (documents st')))"
      by blast
    show ?thesis using formula failed none top by (simp add: descending_def)
  qed
qed

lemma lower_reset_password: "toLowerCase (js ''reset password'') = js ''reset password''"
  by (simp add: string_defs)

lemma words_reset_password:
  "filter (\<lambda>word. length word > 2) (splitWhitespace (js ''reset password''))
   = [js ''reset'', js ''password'']"
  by (simp add: string_defs)

lemma claimedKeywordScore_A0: "claimedKeywordScore (js ''reset password'') docA0 = 1 / 5"
  by (simp add: claimedKeywordScore_def keywordFormula_def lower_reset_password
      words_reset_password docA0_fields)
    (simp add: metaA0_def js_def)

text \<open>
  As claim C6 is worded, the query is looked for in the question as stored. For the
  query \<^verbatim>\<open>reset password\<close> and the stored question \<^verbatim>\<open>Reset password\<close> that reading
  gives 2 / 10 (only the word \<^verbatim>\<open>password\<close> occurs), and the program gives 7 / 10.
\<close>

theorem keywordScore_case_counterexample:
  "map similarity (keywordResults [docA0] (js ''reset password'') 5) = [7 / 10] \<and>
   claimedKeywordScore (js ''reset password'') docA0 = 1 / 5"
  by (simp add: keywordResults_def Let_def lower_reset_password words_reset_password
      keywordScore_A0 sortBySimilarity_def slice0_def claimedKeywordScore_A0)

lemma lowerCasedKeywordScore_A3: "lowerCasedKeywordScore queryA docA3 = 0"
proof -
  have "lowerCasedKeywordScore queryA docA3
        = keywordScore (js ''reset password'') [js ''reset'', js ''password''] docA3 / 10"
    using keywordScore_formula [of queryA docA3]
    by (simp only: lower_queryA words_queryA [unfolded lower_queryA])
  then show ?thesis by (simp add: keywordScore_A3)
qed

lemma docA3_in_storeA: "docA3 \<in> set (documents storeA)"
  by (simp add: storeA_def)

lemma keywordCandidates_A:
  "keywordCandidates queryA (documents storeA) = [resK0, resK2]"
proof -
  have "keywordCandidates queryA [docA0, docA2, docA3]
        = keywordLoop (js ''reset password'') [js ''reset'', js ''password'']
            [docA0, docA2, docA3]"
    using keywordLoop_candidates [of queryA "[docA0, docA2, docA3]"]
    by (simp only: lower_queryA words_queryA [unfolded lower_queryA])
  also have "\<dots> = [resK0, resK2]"
    by (simp add: Let_def keywordScore_A0 keywordScore_A2 keywordScore_A3 resK0_def resK2_def
        docA0_fields docA2_fields)
  finally show ?thesis by (simp add: storeA_def)
qed

lemma keywordResults_A_top:
  "keywordResults [docA0, docA2, docA3] queryA 1 = [resK2]"
  by (simp add: keywordResults_def Let_def lower_queryA words_queryA [unfolded lower_queryA]
      keywordScore_A0 keywordScore_A2 keywordScore_A3 resK0_def resK2_def
      sortBySimilarity_def slice0_def docA0_fields docA2_fields)

lemma keywordSearch_A_top:
  "keywordSearch (Rows rowsA) newStore queryA 1 = Fulfilled (storeA, [resK2])"
proof -
  have docs: "documents storeA = [docA0, docA2, docA3]" by (simp add: storeA_def)
  have "keywordSearch (Rows rowsA) newStore queryA 1
        = Fulfilled (storeA, keywordResults (documents storeA) queryA 1)"
    by (simp add: keywordSearch_def initialize_A)
  then show ?thesis by (simp only: docs keywordResults_A_top)
qed

text \<open>
  The keyword search on the concrete corpus, from a new store, for one result: the two
  documents of positive score are the first and the second of the corpus, and the one
  returned is the second, of the higher score.
\<close>

theorem keywordSearch_scores_witness:
  "storeInv newStore \<and>
   keywordSearch (Rows rowsA) newStore queryA 1 = Fulfilled (storeA, [resK2]) \<and>
   (\<exists>d \<in> set (documents storeA).
      result_metadata resK2 = metadata d \<and>
      similarity resK2 = lowerCasedKeywordScore queryA d \<and> 0 < similarity resK2) \<and>
   docA3 \<in> set (documents storeA) \<and>
   lowerCasedKeywordScore queryA docA3 = 0 \<and>
   resultId resK2 \<noteq> qa_pair_id (metadata docA3) \<and>
   descending [resK2] \<and>
   length [resK2]
     = min 1 (length (filter (\<lambda>d. 0 < lowerCasedKeywordScore queryA d) (documents storeA))) \<and>
   keywordCandidates queryA (documents storeA) = [resK0, resK2] \<and>
   (\<exists>ranked. [resK2] = take 1 ranked \<and> descending ranked \<and>
      (\<forall>v. filter (\<lambda>r. similarity r = v) ranked
           = filter (\<lambda>r. similarity r = v) [resK0, resK2]))"
proof -
  note w = keywordSearch_scores [OF storeInv_newStore keywordSearch_A_top]
  have members: "\<forall>r \<in> set [resK2]. \<exists>d \<in> set (documents storeA).
            result_metadata r = metadata d \<and>
            similarity r = lowerCasedKeywordScore queryA d \<and> 0 < similarity r"
    using w by blast
  have excluded: "\<forall>r \<in> set [resK2]. resultId r \<noteq> qa_pair_id (metadata docA3)"
    using w docA3_in_storeA lowerCasedKeywordScore_A3 by blast
  have desc: "descending [resK2]" using w by blast
  have len: "length [resK2]
     = min 1 (length (filter (\<lambda>d. 0 < lowerCasedKeywordScore queryA d) (documents storeA)))"
    using w by blast
  have "\<exists>ranked. [resK2] = take 1 ranked \<and> descending ranked \<and>
      (\<forall>v. filter (\<lambda>r. similarity r = v) ranked
           = filter (\<lambda>r. similarity r = v) (keywordCandidates queryA (documents storeA)))"
    using w by blast
  then have top: "\<exists>ranked. [resK2] = take 1 ranked \<and> descending ranked \<and>
      (\<forall>v. filter (\<lambda>r. similarity r = v) ranked
           = filter (\<lambda>r. similarity r = v) [resK0, resK2])"
    by (simp only: keywordCandidates_A)
  show ?thesis
    using storeInv_newStore keywordSearch_A_top members excluded desc len docA3_in_storeA
      lowerCasedKeywordScore_A3 keywordCandidates_A top
    by simp
qed

subsection \<open>Fusion\<close>

lemma uniqueLoop_member:
  "r \<in> set (uniqueLoop seenIds results) \<Longrightarrow>
   resultId r \<notin> seenIds \<and> find (\<lambda>s. resultId s = resultId r) results = Some r"
proof (induction results arbitrary: seenIds)
  case Nil
  then show ?case by simp
next
  case (Cons x rest)
  show ?case
  proof (cases "resultId x \<in> seenIds")
    case True
    then have "r \<in> set (uniqueLoop seenIds rest)" using Cons.prems by (simp add: Let_def)
    then have "resultId r \<notin> seenIds \<and> find (\<lambda>s. resultId s = resultId r) rest = Some r"
      by (rule Cons.IH)
    then show ?thesis using True by auto
  next
    case False
    then have "r = x \<or> r \<in> set (uniqueLoop (insert (resultId x) seenIds) rest)"
      using Cons.prems by (simp add: Let_def)
    then show ?thesis
    proof
      assume "r = x"
      then show ?thesis using False by simp
    next
      assume "r \<in> set (uniqueLoop (insert (resultId x) seenIds) rest)"
      then have "resultId r \<notin> insert (resultId x) seenIds \<and>
                 find (\<lambda>s. resultId s = resultId r) rest = Some r"
        by (rule Cons.IH)
      then show ?thesis by auto
    qed
  qed
qed

lemma uniqueLoop_distinct: "distinct (map resultId (uniqueLoop seenIds results))"
proof (induction results arbitrary: seenIds)
  case Nil
  show ?case by simp
next
  case (Cons x rest)
  have "resultId x \<notin> resultId ` set (uniqueLoop (insert (resultId x) seenIds) rest)"
    using uniqueLoop_member by fastforce
  then show ?case using Cons.IH by (simp add: Let_def)
qed

lemma distinct_ids_sortBySimilarity:
  "distinct (map resultId (sortBySimilarity rs)) = distinct (map resultId rs)"
  by (simp add: sortBySimilarity_def distinct_map)

lemma distinct_ids_slice0:
  "distinct (map resultId rs) \<Longrightarrow> distinct (map resultId (slice0 k rs))"
  by (simp add: slice0_def take_map [symmetric])

lemma fuse_distinct: "distinct (map resultId (fuse similarityRes keywordRes k))"
  by (simp add: fuse_def Let_def distinct_ids_slice0 distinct_ids_sortBySimilarity
      uniqueLoop_distinct)

lemma fuse_length: "length (fuse similarityRes keywordRes k) \<le> k"
  by (simp add: fuse_def Let_def length_slice0)

lemma fuse_descending: "descending (fuse similarityRes keywordRes k)"
  by (simp add: fuse_def Let_def descending_slice0 descending_sortBySimilarity)

lemma fuse_first_occurrence:
  assumes "r \<in> set (fuse similarityRes keywordRes k)"
  shows "find (\<lambda>s. resultId s = resultId r) (similarityRes @ keywordRes) = Some r"
proof -
  have "r \<in> set (uniqueLoop {} (similarityRes @ keywordRes))"
    using assms set_slice0 by (fastforce simp: fuse_def Let_def)
  then show ?thesis using uniqueLoop_member by blast
qed

lemma find_append_first:
  "find P (xs @ ys) = Some r \<Longrightarrow> \<exists>s \<in> set xs. P s \<Longrightarrow> r \<in> set xs"
  by (induction xs) (auto split: if_splits)

lemma find_member: "find P xs = Some r \<Longrightarrow> r \<in> set xs"
  by (auto simp: find_Some_iff)

lemma questionSearch_fuse:
  assumes "similaritySearch src st query k threshold = Fulfilled (st1, similarityRes)"
    and "keywordSearch src st1 query k = Fulfilled (st2, keywordRes)"
  shows "questionSearch src st query k threshold = Fulfilled (st2, fuse similarityRes keywordRes k)"
  using assms by (simp add: questionSearch_def)

text \<open>
  Claim C2. The output of \<open>questionSearch\<close> has no two results of the same
  \<^verbatim>\<open>qa_pair_id\<close>, has at most \<open>k\<close> results, and is in descending order of score. Each
  result is the first one of its \<^verbatim>\<open>qa_pair_id\<close> in the similarity results followed by the
  keyword results; so for a document in both lists the result of the similarity search is
  the one kept.
\<close>

theorem questionSearch_fused:
  assumes sim: "similaritySearch src st query k threshold = Fulfilled (st1, similarityRes)"
    and kw: "keywordSearch src st1 query k = Fulfilled (st2, keywordRes)"
    and run: "questionSearch src st query k threshold = Fulfilled (st', out)"
  shows "distinct (map resultId out) \<and> length out \<le> k \<and> descending out \<and>
         (\<forall>r \<in> set out.
            find (\<lambda>s. resultId s = resultId r) (similarityRes @ keywordRes) = Some r) \<and>
         (\<forall>r \<in> set out.
            (\<exists>s \<in> set similarityRes. resultId s = resultId r) \<longrightarrow> r \<in> set similarityRes)"
proof -
  have out: "out = fuse similarityRes keywordRes k"
    using questionSearch_fuse [OF sim kw] run by simp
  have first: "\<forall>r \<in> set out.
            find (\<lambda>s. resultId s = resultId r) (similarityRes @ keywordRes) = Some r"
    unfolding out using fuse_first_occurrence by blast
  have kept: "\<forall>r \<in> set out.
            (\<exists>s \<in> set similarityRes. resultId s = resultId r) \<longrightarrow> r \<in> set similarityRes"
    using first find_append_first by fast
  show ?thesis
    using first kept by (simp add: out fuse_distinct fuse_length fuse_descending)
qed

lemma keywordSearch_A1:
  "keywordSearch (Rows rowsA) storeA queryA 5 = Fulfilled (storeA, [resK2, resK0])"
proof -
  have "initialize (Rows rowsA) storeA = Fulfilled storeA"
    by (simp add: initialize_def storeA_def)
  moreover have "documents storeA = [docA0, docA2, docA3]" by (simp add: storeA_def)
  ultimately show ?thesis by (simp add: keywordSearch_def keywordResults_A)
qed

lemma questionSearch_A:
  "questionSearch (Rows rowsA) newStore queryA 5 (3 / 10) = Fulfilled (storeA, [resK2, resS0])"
  by (simp add: questionSearch_def similaritySearch_A keywordSearch_A1 fuse_A)

lemma same_id_A0: "resultId resS0 = resultId resK0"
  by (simp add: resS0_def resK0_def)

text \<open>
  The fused search on the concrete corpus: the first document is in both lists, and its
  result of the similarity search is kept.
\<close>

theorem questionSearch_fused_witness:
  "similaritySearch (Rows rowsA) newStore queryA 5 (3 / 10) = Fulfilled (storeA, [resS0]) \<and>
   keywordSearch (Rows rowsA) storeA queryA 5 = Fulfilled (storeA, [resK2, resK0]) \<and>
   questionSearch (Rows rowsA) newStore queryA 5 (3 / 10) = Fulfilled (storeA, [resK2, resS0]) \<and>
   distinct (map resultId [resK2, resS0]) \<and> length [resK2, resS0] \<le> 5 \<and>
   descending [resK2, resS0] \<and>
   find (\<lambda>s. resultId s = resultId resK2) ([resS0] @ [resK2, resK0]) = Some resK2 \<and>
   find (\<lambda>s. resultId s = resultId resS0) ([resS0] @ [resK2, resK0]) = Some resS0 \<and>
   resS0 \<in> set [resK2, resS0] \<and> resK0 \<in> set [resK2, resK0] \<and>
   resultId resK0 = resultId resS0 \<and> resS0 \<in> set [resS0]"
proof -
  note w = questionSearch_fused [OF similaritySearch_A keywordSearch_A1 questionSearch_A]
  have first: "\<forall>r \<in> set [resK2, resS0].
            find (\<lambda>s. resultId s = resultId r) ([resS0] @ [resK2, resK0]) = Some r"
    using w by blast
  have kept: "(\<exists>s \<in> set [resS0]. resultId s = resultId resS0) \<longrightarrow> resS0 \<in> set [resS0]"
    using w by simp
  have "distinct (map resultId [resK2, resS0])" "length [resK2, resS0] \<le> 5"
    "descending [resK2, resS0]"
    using w by blast+
  then show ?thesis
    using similaritySearch_A keywordSearch_A1 questionSearch_A first kept same_id_A0 by simp
qed

subsection \<open>Completion and failure of the load\<close>









text \<open>
  An error of the parser is caught by each search: \<open>loadDocuments\<close> and \<open>initialize\<close> are
  rejected with it, the store stays as it was, and the three searches return the empty
  list as their value.
\<close>

lemma parser_failure_swallowed:
  assumes "\<not> initialized st"
  shows "loadDocuments (ParserFailure e) st = Rejected e \<and>
         initialize (ParserFailure e) st = Rejected e \<and>
         similaritySearch (ParserFailure e) st query k threshold = Fulfilled (st, []) \<and>
         keywordSearch (ParserFailure e) st query k = Fulfilled (st, []) \<and>
         questionSearch (ParserFailure e) st query k threshold = Fulfilled (st, [])"
proof -
  have load: "loadDocuments (ParserFailure e) st = Rejected e"
    by (simp add: loadDocuments_def loadCSV_def)
  then have init: "initialize (ParserFailure e) st = Rejected e"
    using assms by (simp add: initialize_def)
  have sim: "similaritySearch (ParserFailure e) st query k threshold = Fulfilled (st, [])"
    using init by (simp add: similaritySearch_def)
  have kw: "keywordSearch (ParserFailure e) st query k = Fulfilled (st, [])"
    using init by (simp add: keywordSearch_def)
  have "questionSearch (ParserFailure e) st query k threshold = Fulfilled (st, fuse [] [] k)"
    using sim kw by (rule questionSearch_fuse)
  then have "questionSearch (ParserFailure e) st query k threshold = Fulfilled (st, [])"
    by (simp add: fuse_def sortBySimilarity_def slice0_def)
  then show ?thesis using load init sim kw by simp
qed

text \<open>
  Claim C4. When the file cannot be read at all, the load is meant to fail with an error
  that reaches the caller. The program adds its \<^verbatim>\<open>error\<close> listener to the parser and not
  to the read stream of the file: for a file that cannot be read and a new store, the
  promise of \<open>loadCSV\<close> never settles, and so neither do \<open>loadDocuments\<close>,
  \<open>initialize\<close> and the three searches. No error reaches a caller and no \<^verbatim>\<open>catch\<close> runs.
\<close>

theorem unreadable_source_never_settles:
  "loadCSV ReadFailure = Unsettled \<and>
   loadDocuments ReadFailure newStore = Unsettled \<and>
   initialize ReadFailure newStore = Unsettled \<and>
   similaritySearch ReadFailure newStore queryA 5 (3 / 10) = Unsettled \<and>
   keywordSearch ReadFailure newStore queryA 5 = Unsettled \<and>
   questionSearch ReadFailure newStore queryA 5 (3 / 10) = Unsettled"
  by (simp add: questionSearch_def similaritySearch_def keywordSearch_def initialize_def
      loadDocuments_def loadCSV_def newStore_def)

subsection \<open>A query identical to a stored question\<close>

lemma similarity_with_itself:
  assumes "ts \<noteq> []"
  shows "calculateQuestionSimilarity ts ts = Num 1"
proof -
  have inter: "intersection ts ts = ts" by (simp add: intersection_def)
  have uni: "length (union_tokens ts ts) = card (set ts)"
    by (simp add: union_tokens_def length_newSet)
  have pos: "0 < card (set ts)" using assms by (simp add: card_gt_0_iff)
  have le: "card (set ts) \<le> length ts" by (rule card_length)
  have "(1::rat) \<le> of_nat (length ts) / of_nat (card (set ts))"
    using pos le by (simp add: le_divide_eq)
  moreover have "0 \<le> boostLoop questionWords ts ts 0" by (rule boostLoop_lower)
  ultimately have "1 \<le> of_nat (length ts) / of_nat (card (set ts))
                       + boostLoop questionWords ts ts 0"
    by linarith
  then show ?thesis
    using pos assms
    by (simp add: calculateQuestionSimilarity_def jaccard_def inter uni divLengths_def
        plus_num_def mathMin_def min_def)
qed

lemma storeInv_similaritySearch:
  assumes "storeInv st" and "similaritySearch src st query k threshold = Fulfilled (st', out)"
  shows "storeInv st'"
  using similaritySearch_cases [OF assms(2)] assms(1) storeInv_initialize by blast

lemma storeInv_keywordSearch:
  assumes "storeInv st" and "keywordSearch src st query k = Fulfilled (st', out)"
  shows "storeInv st'"
  using keywordSearch_cases [OF assms(2)] assms(1) storeInv_initialize by blast

lemma similaritySearch_at_most_one:
  assumes "similaritySearch src st query k threshold = Fulfilled (st', out)" and "r \<in> set out"
  shows "similarity r \<le> 1"
proof -
  from similaritySearch_cases [OF assms(1)]
  have "r \<in> set (similarityResults (documents st') query k threshold)"
    using assms(2) by auto
  from similarityResults_member [OF this] obtain d :: doc where
    "calculateQuestionSimilarity (tokenize (toLowerCase query)) (tokens d) = Num (similarity r)"
    by blast
  then show ?thesis using calculateQuestionSimilarity_Num by blast
qed

lemma fuse_member:
  "r \<in> set (fuse similarityRes keywordRes k) \<Longrightarrow> r \<in> set similarityRes \<or> r \<in> set keywordRes"
  using fuse_first_occurrence [of r similarityRes keywordRes k] find_member by fastforce

text \<open>
  Claim C3, as far as it holds. When the query is a stored question verbatim and that
  question has a token, the similarity score of its document is 1, no result of the
  similarity search has a higher score, and a result of the fused output with a score
  above 1 is a result of the keyword search that the similarity search did not return.
\<close>

theorem verbatim_query_similarity:
  assumes inv: "storeInv st"
    and sim: "similaritySearch src st query k threshold = Fulfilled (st1, similarityRes)"
    and kw: "keywordSearch src st1 query k = Fulfilled (st2, keywordRes)"
    and run: "questionSearch src st query k threshold = Fulfilled (st', out)"
    and d: "d \<in> set (documents st')"
    and verbatim: "question (metadata d) = query"
    and nonempty: "tokens d \<noteq> []"
  shows "calculateQuestionSimilarity (tokenize (toLowerCase query)) (tokens d) = Num 1 \<and>
         (\<forall>r \<in> set similarityRes. similarity r \<le> 1) \<and>
         (\<forall>r \<in> set out. 1 < similarity r \<longrightarrow> r \<in> set keywordRes \<and> r \<notin> set similarityRes)"
proof -
  have result: "questionSearch src st query k threshold
                = Fulfilled (st2, fuse similarityRes keywordRes k)"
    using sim kw by (rule questionSearch_fuse)
  then have st': "st' = st2" and out: "out = fuse similarityRes keywordRes k"
    using run by simp_all
  have "storeInv st1" using inv sim by (rule storeInv_similaritySearch)
  then have "storeInv st'" unfolding st' using kw by (rule storeInv_keywordSearch)
  then have "wellFormedDoc d" using d by (simp add: storeInv_def list_all_iff)
  then have "tokens d = tokenize (toLowerCase query)"
    using verbatim by (simp add: wellFormedDoc_def)
  then have one: "calculateQuestionSimilarity (tokenize (toLowerCase query)) (tokens d) = Num 1"
    using nonempty similarity_with_itself [of "tokens d"] by simp
  have bounded: "\<forall>r \<in> set similarityRes. similarity r \<le> 1"
    using similaritySearch_at_most_one [OF sim] by blast
  have above: "\<forall>r \<in> set out. 1 < similarity r \<longrightarrow> r \<in> set keywordRes \<and> r \<notin> set similarityRes"
  proof (intro ballI impI)
    fix r
    assume r: "r \<in> set out" and big: "1 < similarity r"
    have notsim: "r \<notin> set similarityRes" using bounded big by fastforce
    moreover have "r \<in> set similarityRes \<or> r \<in> set keywordRes"
      using r unfolding out by (rule fuse_member)
    ultimately show "r \<in> set keywordRes \<and> r \<notin> set similarityRes" by blast
  qed
  show ?thesis using one bounded above by blast
qed

lemma docA0_in_storeA: "docA0 \<in> set (documents storeA)"
  by (simp add: storeA_def)

lemma docA0_verbatim: "question (metadata docA0) = queryA"
  by (simp add: docA0_fields metaA0_def queryA_def)

lemma docA0_tokens: "tokens docA0 \<noteq> []"
  by (simp add: docA0_def)

text \<open>The concrete corpus and the query equal to its first question.\<close>

theorem verbatim_query_similarity_witness:
  "storeInv newStore \<and>
   similaritySearch (Rows rowsA) newStore queryA 5 (3 / 10) = Fulfilled (storeA, [resS0]) \<and>
   keywordSearch (Rows rowsA) storeA queryA 5 = Fulfilled (storeA, [resK2, resK0]) \<and>
   questionSearch (Rows rowsA) newStore queryA 5 (3 / 10) = Fulfilled (storeA, [resK2, resS0]) \<and>
   docA0 \<in> set (documents storeA) \<and>
   question (metadata docA0) = queryA \<and>
   tokens docA0 \<noteq> [] \<and>
   calculateQuestionSimilarity (tokenize (toLowerCase queryA)) (tokens docA0) = Num 1 \<and>
   similarity resS0 \<le> 1 \<and>
   resK2 \<in> set [resK2, resS0] \<and> 1 < similarity resK2 \<and>
   resK2 \<in> set [resK2, resK0] \<and> resK2 \<notin> set [resS0]"
proof -
  note w = verbatim_query_similarity [OF storeInv_newStore similaritySearch_A
      keywordSearch_A1 questionSearch_A docA0_in_storeA docA0_verbatim docA0_tokens]
  have big: "1 < similarity resK2" by (simp add: resK2_def)
  have one: "calculateQuestionSimilarity (tokenize (toLowerCase queryA)) (tokens docA0) = Num 1"
    using w by blast
  have bounded: "similarity resS0 \<le> 1" using w by simp
  have above: "resK2 \<in> set [resK2, resK0] \<and> resK2 \<notin> set [resS0]"
    using w big by simp
  show ?thesis
    using storeInv_newStore similaritySearch_A keywordSearch_A1 questionSearch_A
      docA0_in_storeA docA0_verbatim docA0_tokens one bounded big above
    by simp
qed

text \<open>
  Claim C3 says that the document whose question is the query ranks first. In the concrete
  corpus the query is the question of the first document; the fused output lists the
  other document first, with keyword score 11 / 10 against the similarity score 1.
\<close>

theorem verbatim_query_counterexample:
  "questionSearch (Rows rowsA) newStore queryA 5 (3 / 10) = Fulfilled (storeA, [resK2, resS0]) \<and>
   docA0 \<in> set (documents storeA) \<and>
   question (metadata docA0) = queryA \<and>
   result_metadata resS0 = metadata docA0 \<and>
   similarity resS0 < similarity resK2"
  using questionSearch_A docA0_in_storeA docA0_verbatim
  by (simp add: docA0_fields resS0_def resK2_def)

subsection \<open>The loaded index\<close>

lemma loadDocuments_documents:
  "loadDocuments (Rows rows) st = Fulfilled st' \<Longrightarrow> documents st' = loadLoop 0 rows"
  by (auto simp: loadDocuments_def loadCSV_def)



lemma loadDocuments_A: "loadDocuments (Rows rowsA) newStore = Fulfilled storeLoadedA"
  by (simp add: loadDocuments_def loadCSV_def newStore_def storeLoadedA_def loadLoop_rowsA)

lemma docA0_in_storeLoadedA: "docA0 \<in> set (documents storeLoadedA)"
  by (simp add: storeLoadedA_def)



subsection \<open>The tokenizer\<close>

lemma lowerUnit_simple: "c \<noteq> 304 \<Longrightarrow> c \<noteq> 8490 \<Longrightarrow> lowerUnit c = [lowerSimple c]"
  by (simp add: lowerUnit_def lowerSimple_def)

lemma toLowerCase_map:
  "304 \<notin> set s \<Longrightarrow> 8490 \<notin> set s \<Longrightarrow> toLowerCase s = map lowerSimple s"
  by (induction s) (auto simp: toLowerCase_def lowerUnit_simple)

lemma isSpace_lowerSimple: "isSpace (lowerSimple c) = isSpace c"
  by (auto simp: isSpace_def lowerSimple_def)

lemma isWord_lowerSimple: "isWord (lowerSimple c) = isWord c"
  by (auto simp: isWord_def lowerSimple_def)

lemma lowerSimple_idem: "lowerSimple (lowerSimple c) = lowerSimple c"
  by (simp add: lowerSimple_def)

lemma isWord_not_special: "isWord c \<Longrightarrow> c \<noteq> 304 \<and> c \<noteq> 8490"
  by (auto simp: isWord_def)

lemma splitRuns_nonempty: "splitRuns inRun s \<noteq> []"
  by (induction s arbitrary: inRun) (auto split: list.splits)

lemma splitRuns_map:
  "splitRuns inRun (map lowerSimple s) = map (map lowerSimple) (splitRuns inRun s)"
proof (induction s arbitrary: inRun)
  case Nil
  show ?case by simp
next
  case (Cons c cs)
  show ?case
  proof (cases "isSpace c")
    case True
    then show ?thesis using Cons.IH by (simp add: isSpace_lowerSimple)
  next
    case False
    obtain w ws where w: "splitRuns False cs = w # ws"
      using splitRuns_nonempty [of False cs] by (cases "splitRuns False cs") auto
    show ?thesis using False Cons.IH [of False] w by (simp add: isSpace_lowerSimple)
  qed
qed

lemma splitRuns_pieces:
  "w \<in> set (splitRuns inRun s) \<Longrightarrow> c \<in> set w \<Longrightarrow> c \<in> set s \<and> \<not> isSpace c"
proof (induction s arbitrary: inRun w)
  case Nil
  then show ?case by simp
next
  case (Cons a cs)
  show ?case
  proof (cases "isSpace a")
    case True
    then have "w = [] \<or> w \<in> set (splitRuns True cs)"
      using Cons.prems(1) by (auto split: if_splits)
    then show ?thesis using Cons.IH Cons.prems(2) by auto
  next
    case False
    obtain v vs where v: "splitRuns False cs = v # vs"
      using splitRuns_nonempty [of False cs] by (cases "splitRuns False cs") auto
    then have "w = a # v \<or> w \<in> set vs" using Cons.prems(1) False by simp
    then show ?thesis
    proof
      assume "w = a # v"
      then have "c = a \<or> c \<in> set v" using Cons.prems(2) by simp
      moreover have "v \<in> set (splitRuns False cs)" using v by simp
      ultimately show ?thesis using False Cons.IH by auto
    next
      assume "w \<in> set vs"
      then have "w \<in> set (splitRuns False cs)" using v by simp
      then show ?thesis using Cons.IH Cons.prems(2) by auto
    qed
  qed
qed

lemma replacePunctuation_map:
  "replacePunctuation (map lowerSimple s) = map lowerSimple (replacePunctuation s)"
  by (simp add: replacePunctuation_def isSpace_lowerSimple isWord_lowerSimple)
     (simp add: lowerSimple_def)

lemma replacePunctuation_chars:
  "c \<in> set (replacePunctuation s) \<Longrightarrow> isWord c \<or> isSpace c"
  by (auto simp: replacePunctuation_def isSpace_def split: if_splits)

lemma piece_word_chars:
  assumes "w \<in> set (splitWhitespace (replacePunctuation s))" and "c \<in> set w"
  shows "isWord c"
proof -
  have "c \<in> set (replacePunctuation s) \<and> \<not> isSpace c"
    using assms unfolding splitWhitespace_def by (rule splitRuns_pieces)
  then show ?thesis using replacePunctuation_chars by blast
qed

lemma toLowerCase_word:
  assumes "\<forall>c \<in> set w. isWord c"
  shows "toLowerCase w = map lowerSimple w"
    and "toLowerCase (map lowerSimple w) = map lowerSimple w"
proof -
  have plain: "304 \<notin> set w" "8490 \<notin> set w" using assms isWord_not_special by blast+
  show first: "toLowerCase w = map lowerSimple w" using plain by (rule toLowerCase_map)
  have "\<forall>c \<in> set (map lowerSimple w). isWord c"
    using assms by (simp add: isWord_lowerSimple)
  then have "304 \<notin> set (map lowerSimple w)" "8490 \<notin> set (map lowerSimple w)"
    using isWord_not_special by blast+
  then have "toLowerCase (map lowerSimple w) = map lowerSimple (map lowerSimple w)"
    by (rule toLowerCase_map)
  then show "toLowerCase (map lowerSimple w) = map lowerSimple w"
    by (simp add: lowerSimple_idem)
qed

lemma tokenize_toLowerCase:
  assumes "304 \<notin> set s" and "8490 \<notin> set s"
  shows "tokenize (toLowerCase s) = tokenize s"
proof -
  let ?pieces = "filter (\<lambda>token. length token > 2) (splitWhitespace (replacePunctuation s))"
  have "tokenize (toLowerCase s) = tokenize (map lowerSimple s)"
    using assms by (simp add: toLowerCase_map)
  also have "\<dots> = map toLowerCase (map (map lowerSimple) ?pieces)"
    by (simp add: tokenize_def replacePunctuation_map splitWhitespace_def splitRuns_map
        filter_map comp_def)
  also have "\<dots> = map toLowerCase ?pieces"
  proof -
    have "toLowerCase (map lowerSimple w) = toLowerCase w" if w: "w \<in> set ?pieces" for w
    proof -
      have "\<forall>c \<in> set w. isWord c" using w piece_word_chars by auto
      then show ?thesis using toLowerCase_word by simp
    qed
    then show ?thesis by simp
  qed
  also have "\<dots> = tokenize s" by (simp add: tokenize_def)
  finally show ?thesis .
qed

lemma tokenize_token:
  assumes "t \<in> set (tokenize s)"
  shows "toLowerCase t = t \<and> 2 < length t"
proof -
  obtain w where w: "w \<in> set (splitWhitespace (replacePunctuation s))" "2 < length w"
      "t = toLowerCase w"
    using assms by (auto simp: tokenize_def)
  have "\<forall>c \<in> set w. isWord c" using w(1) piece_word_chars by blast
  then have "toLowerCase w = map lowerSimple w"
    "toLowerCase (map lowerSimple w) = map lowerSimple w"
    by (rule toLowerCase_word)+
  then show ?thesis using w(2,3) by simp
qed

lemma tokenize_whitespace:
  assumes "\<forall>c \<in> set text. isSpace c"
  shows "tokenize text = []"
proof -
  have same: "replacePunctuation text = text"
    using assms by (simp add: replacePunctuation_def map_idI)
  have "\<forall>w \<in> set (splitWhitespace text). length w = 0"
  proof
    fix w
    assume w: "w \<in> set (splitWhitespace text)"
    show "length w = 0"
    proof (cases w)
      case Nil
      then show ?thesis by simp
    next
      case (Cons c cs)
      then have "c \<in> set w" by simp
      with w have "c \<in> set text \<and> \<not> isSpace c"
        unfolding splitWhitespace_def by (rule splitRuns_pieces)
      then show ?thesis using assms by blast
    qed
  qed
  then have "\<forall>w \<in> set (splitWhitespace text). \<not> 2 < length w"
    by fastforce
  then have "filter (\<lambda>token. length token > 2) (splitWhitespace text) = []"
    by (simp only: filter_empty_conv)
  then show ?thesis by (simp add: tokenize_def same)
qed

text \<open>
  Claim C8, as far as it holds. \<open>tokenize\<close> is a function of its argument alone. It
  returns no token for a text of white space only (the empty text among them). The tokens
  stored with a document are those of its lower-cased question; every stored token is
  lower-case and longer than two code units; and \<open>tokenize\<close> applied to the question
  itself gives the stored tokens when the question holds neither U+0130 nor U+212A.
\<close>

theorem tokenize_stored_tokens:
  assumes "loadDocuments (Rows rows) st = Fulfilled st'"
  shows "(\<forall>text. (\<forall>c \<in> set text. isSpace c) \<longrightarrow> tokenize text = []) \<and>
         (\<forall>d \<in> set (documents st').
            tokens d = tokenize (toLowerCase (question (metadata d))) \<and>
            (304 \<notin> set (question (metadata d)) \<and> 8490 \<notin> set (question (metadata d))
               \<longrightarrow> tokenize (question (metadata d)) = tokens d) \<and>
            (\<forall>t \<in> set (tokens d). toLowerCase t = t \<and> 2 < length t))"
proof -
  have blank: "\<forall>text. (\<forall>c \<in> set text. isSpace c) \<longrightarrow> tokenize text = []"
    using tokenize_whitespace by blast
  have docs: "documents st' = loadLoop 0 rows"
    using assms by (rule loadDocuments_documents)
  have stored: "\<forall>d \<in> set (documents st').
            tokens d = tokenize (toLowerCase (question (metadata d))) \<and>
            (304 \<notin> set (question (metadata d)) \<and> 8490 \<notin> set (question (metadata d))
               \<longrightarrow> tokenize (question (metadata d)) = tokens d) \<and>
            (\<forall>t \<in> set (tokens d). toLowerCase t = t \<and> 2 < length t)"
  proof
    fix d :: doc
    assume "d \<in> set (documents st')"
    then have "wellFormedDoc d"
      using loadLoop_wellFormed [of 0 rows] by (simp add: docs list_all_iff)
    then have tok: "tokens d = tokenize (toLowerCase (question (metadata d)))"
      by (simp add: wellFormedDoc_def)
    have same: "304 \<notin> set (question (metadata d)) \<and> 8490 \<notin> set (question (metadata d))
               \<longrightarrow> tokenize (question (metadata d)) = tokens d"
      using tok tokenize_toLowerCase by simp
    have each: "\<forall>t \<in> set (tokens d). toLowerCase t = t \<and> 2 < length t"
      unfolding tok using tokenize_token by blast
    show "tokens d = tokenize (toLowerCase (question (metadata d))) \<and>
            (304 \<notin> set (question (metadata d)) \<and> 8490 \<notin> set (question (metadata d))
               \<longrightarrow> tokenize (question (metadata d)) = tokens d) \<and>
            (\<forall>t \<in> set (tokens d). toLowerCase t = t \<and> 2 < length t)"
      using tok same each by blast
  qed
  show ?thesis using blank stored by blast
qed

lemma spaces_are_space: "\<forall>c \<in> set (js ''   ''). isSpace c"
  by (simp add: js_def isSpace_def)

lemma question_docA0_plain:
  "304 \<notin> set (question (metadata docA0)) \<and> 8490 \<notin> set (question (metadata docA0))"
  by (simp add: docA0_fields metaA0_def js_def)

lemma token_of_docA0: "js ''reset'' \<in> set (tokens docA0)"
  by (simp add: docA0_def)

text \<open>
  The concrete rows: the stored question \<^verbatim>\<open>Reset password\<close> and its tokens, and a text of
  three spaces.
\<close>

theorem tokenize_stored_tokens_witness:
  "loadDocuments (Rows rowsA) newStore = Fulfilled storeLoadedA \<and>
   tokenize (js ''   '') = [] \<and>
   docA0 \<in> set (documents storeLoadedA) \<and>
   tokens docA0 = tokenize (toLowerCase (question (metadata docA0))) \<and>
   304 \<notin> set (question (metadata docA0)) \<and> 8490 \<notin> set (question (metadata docA0)) \<and>
   tokenize (question (metadata docA0)) = tokens docA0 \<and>
   js ''reset'' \<in> set (tokens docA0) \<and>
   toLowerCase (js ''reset'') = js ''reset'' \<and> 2 < length (js ''reset'')"
proof -
  note w = tokenize_stored_tokens [OF loadDocuments_A]
  have blank: "tokenize (js ''   '') = []" using w spaces_are_space by blast
  have stored: "tokens docA0 = tokenize (toLowerCase (question (metadata docA0)))"
    using w docA0_in_storeLoadedA by blast
  have same: "tokenize (question (metadata docA0)) = tokens docA0"
    using w docA0_in_storeLoadedA question_docA0_plain by blast
  have token: "toLowerCase (js ''reset'') = js ''reset'' \<and> 2 < length (js ''reset'')"
    using w docA0_in_storeLoadedA token_of_docA0 by blast
  show ?thesis
    using loadDocuments_A docA0_in_storeLoadedA blank stored same question_docA0_plain
      token_of_docA0 token
    by blast
qed

lemma makeDocument_K: "makeDocument 0 rowK = Some docK"
  by (simp add: rowK_def docK_def makeDocument_def truthy_def orElse_def decimal.simps
      string_defs)

text \<open>
  Claim C8 says that recomputing \<open>tokenize\<close> on the question of a stored document gives
  its stored tokens. The lower case of the Kelvin sign is the letter \<^verbatim>\<open>k\<close>, a word
  character, and the sign itself is not one: the stored tokens of \<^verbatim>\<open>Heat at 300K now\<close>
  (with the Kelvin sign) hold \<^verbatim>\<open>300k\<close>, and \<open>tokenize\<close> on the question gives \<^verbatim>\<open>300\<close>.
\<close>

theorem tokenize_recompute_counterexample:
  "loadDocuments (Rows [rowK]) newStore = Fulfilled storeLoadedK \<and>
   tokenize (question (metadata docK)) = [js ''heat'', js ''300'', js ''now''] \<and>
   tokens docK = [js ''heat'', js ''300k'', js ''now'']"
proof -
  have "loadDocuments (Rows [rowK]) newStore = Fulfilled storeLoadedK"
    by (simp add: loadDocuments_def loadCSV_def newStore_def storeLoadedK_def makeDocument_K)
  moreover have "tokenize (question (metadata docK)) = [js ''heat'', js ''300'', js ''now'']"
    by (simp add: docK_def string_defs)
  moreover have "tokens docK = [js ''heat'', js ''300k'', js ''now'']"
    by (simp add: docK_def)
  ultimately show ?thesis by simp
qed

end
